theory Spec2Isabelle
  imports Main "HOL-Library.Sublist"
begin

section \<open>Errors, text, cells and frames\<close>

text \<open>
  A Python string is a sequence of Unicode code points; a code point is a natural number.
  \<open>ascii\<close> gives the string of a literal of the program.
\<close>

type_synonym ustring = "nat list"

definition ascii :: "string \<Rightarrow> ustring" where
  "ascii s = map of_char s"

text \<open>
  The exceptions the pipeline can raise, as values.  \<open>KeyError\<close> carries the column names
  that were not found.
\<close>

datatype error =
    KeyError "ustring list"
  | AttributeError
  | TypeError
  | OverflowError
  | ValueError
  | OutOfBoundsDatetime
  | FileNotFoundError string
  | OperationalError
  | IntegrityError

text \<open>
  A cell of a frame read from a CSV file: missing, a number, or text.  The type \<open>'n\<close> of
  numbers (float64 values other than NaN) is left open.  What the libraries under the
  program do with characters, numbers and repeated columns is passed to it as a
  \<open>library\<close>, so that every statement holds whatever they do:
  \<^item> \<open>uc_space\<close>: whether a character is white space (\<open>str.isspace\<close>, what \<open>str.strip\<close> removes),
  \<^item> \<open>uc_decimal\<close>: the value of a character that is a decimal digit of any script (what
    \<open>\d\<close> matches and \<open>int\<close> reads), nothing for any other character,
  \<^item> \<open>uc_lower\<close>: \<open>str.lower\<close>,
  \<^item> \<open>float_repr\<close>: the text \<open>astype(str)\<close> gives for a number,
  \<^item> \<open>float_parse\<close>: the number \<open>pd.to_numeric\<close> reads from a text, if any,
  \<^item> \<open>float_int\<close>: the integer a number is equal to, if any (the cast to \<open>Int64\<close>
    raises for the others),
  \<^item> \<open>kept_cell\<close>: the value SQLite stores when an \<open>INSERT\<close> names a column several times
    and gives these values for it.
\<close>

datatype 'n cell = NaN | Num 'n | Txt ustring

record 'n library =
  uc_space :: "nat \<Rightarrow> bool"
  uc_decimal :: "nat \<Rightarrow> nat option"
  uc_lower :: "ustring \<Rightarrow> ustring"
  float_repr :: "'n \<Rightarrow> ustring"
  float_parse :: "ustring \<Rightarrow> 'n option"
  float_int :: "'n \<Rightarrow> int option"
  kept_cell :: "'n cell list \<Rightarrow> 'n cell"

text \<open>
  A frame as \<open>pd.read_csv\<close> returns it: the header and the rows, in file order, under the
  default index \<open>0, 1, 2, \<dots>\<close>.  A row shorter than the header is padded with missing cells.
\<close>

record 'n frame =
  columns :: "ustring list"
  body :: "'n cell list list"

definition cell_at :: "'n cell list \<Rightarrow> nat \<Rightarrow> 'n cell" where
  "cell_at r p = (if p < length r then r ! p else NaN)"

section \<open>Text\<close>

definition strip :: "'n library \<Rightarrow> ustring \<Rightarrow> ustring" where
  "strip lib s = rev (dropWhile (uc_space lib) (rev (dropWhile (uc_space lib) s)))"

definition is_digit :: "'n library \<Rightarrow> nat \<Rightarrow> bool" where
  "is_digit lib c = (uc_decimal lib c \<noteq> None)"

definition digit_value :: "'n library \<Rightarrow> nat \<Rightarrow> int" where
  "digit_value lib c = (case uc_decimal lib c of None \<Rightarrow> 0 | Some v \<Rightarrow> int v)"

text \<open>\<open>int(ds)\<close> for a string of decimal digits.\<close>

definition digits_value :: "'n library \<Rightarrow> ustring \<Rightarrow> int" where
  "digits_value lib ds = foldl (\<lambda>a c. 10 * a + digit_value lib c) 0 ds"

text \<open>
  \<open>Series.str.extract(r"[Cc](\d+)", expand=False)\<close> on one string: the digits captured by the
  leftmost match of the pattern anywhere in the string (a search, not a full match), or
  nothing.  The second argument is the character class in front of the group.
\<close>

fun str_extract :: "'n library \<Rightarrow> ustring \<Rightarrow> ustring \<Rightarrow> ustring option" where
  "str_extract lib cls [] = None"
| "str_extract lib cls (c # cs) =
     (if c \<in> set cls \<and> takeWhile (is_digit lib) cs \<noteq> [] then Some (takeWhile (is_digit lib) cs)
      else str_extract lib cls cs)"

definition astype_str :: "'n library \<Rightarrow> 'n cell \<Rightarrow> ustring" where
  "astype_str lib c = (case c of NaN \<Rightarrow> ascii ''nan'' | Num v \<Rightarrow> float_repr lib v | Txt s \<Rightarrow> s)"

definition int64_max :: int where
  "int64_max = 2 ^ 63 - 1"

text \<open>
  \<open>.astype("Int64")\<close> on a column of captured digit strings and missing values: each string
  becomes its integer value; one that does not fit 64 bits makes the whole cast raise.
\<close>

definition astype_Int64 :: "'n library \<Rightarrow> ustring option list \<Rightarrow> error + int option list" where
  "astype_Int64 lib xs =
     (if \<exists>x \<in> set xs. case x of None \<Rightarrow> False | Some ds \<Rightarrow> int64_max < digits_value lib ds
      then Inl OverflowError
      else Inr (map (map_option (digits_value lib)) xs))"

section \<open>Columns\<close>

text \<open>\<open>df.columns.str.strip().str.lower()\<close> on one header.\<close>

definition normalize_header :: "'n library \<Rightarrow> ustring \<Rightarrow> ustring" where
  "normalize_header lib h = uc_lower lib (strip lib h)"

definition rename_columns :: "(ustring \<times> ustring) list \<Rightarrow> ustring list \<Rightarrow> ustring list" where
  "rename_columns m cols = map (\<lambda>c. case map_of m c of None \<Rightarrow> c | Some c' \<Rightarrow> c') cols"

definition missing_columns :: "ustring list \<Rightarrow> ustring list \<Rightarrow> ustring list" where
  "missing_columns required cols = filter (\<lambda>c. c \<notin> set cols) required"

definition positions :: "ustring \<Rightarrow> ustring list \<Rightarrow> nat list" where
  "positions name cols = filter (\<lambda>p. cols ! p = name) [0..<length cols]"

text \<open>
  \<open>df[name]\<close> is a series only when one column bears the name; with several it is a frame,
  and the string and numeric operations applied to it raise.
\<close>

definition series :: "error \<Rightarrow> ustring list \<Rightarrow> 'n cell list list \<Rightarrow> ustring \<Rightarrow> error + 'n cell list" where
  "series e cols rows name =
     (case positions name cols of
        [p] \<Rightarrow> Inr (map (\<lambda>r. cell_at r p) rows)
      | _ \<Rightarrow> Inl e)"

text \<open>The cells of a row under every column that bears the name, left to right.\<close>

definition cells_of :: "ustring list \<Rightarrow> ustring \<Rightarrow> 'n cell list \<Rightarrow> 'n cell list" where
  "cells_of cols name r = map (cell_at r) (positions name cols)"

text \<open>The key column of a dimension or fact table: extract the code, cast to \<open>Int64\<close>.\<close>

definition key_series :: "'n library \<Rightarrow> ustring \<Rightarrow> ustring list \<Rightarrow> 'n cell list list \<Rightarrow> ustring \<Rightarrow> error + int option list" where
  "key_series lib cls cols rows name =
     (case series AttributeError cols rows name of
        Inl e \<Rightarrow> Inl e
      | Inr codes \<Rightarrow>
          astype_Int64 lib (map (\<lambda>c. str_extract lib cls (strip lib (astype_str lib c))) codes))"

section \<open>Deduplication and the dimension normalisers\<close>

text \<open>\<open>df.drop_duplicates(subset=[key], keep="first")\<close>: the first row of every key, in order.\<close>

fun drop_dupes_from :: "'k list \<Rightarrow> ('a \<Rightarrow> 'k) \<Rightarrow> 'a list \<Rightarrow> 'a list" where
  "drop_dupes_from seen key [] = []"
| "drop_dupes_from seen key (x # xs) =
     (if key x \<in> set seen then drop_dupes_from seen key xs
      else x # drop_dupes_from (key x # seen) key xs)"

definition drop_dupes :: "('a \<Rightarrow> 'k) \<Rightarrow> 'a list \<Rightarrow> 'a list" where
  "drop_dupes key df = drop_dupes_from [] key df"

text \<open>\<open>df.dropna(subset=[key])\<close> for one nullable column.\<close>

definition dropna :: "('a \<Rightarrow> 'k option) \<Rightarrow> 'a list \<Rightarrow> 'a list" where
  "dropna key df = filter (\<lambda>r. key r \<noteq> None) df"

record 'n customer =
  customer_segmentid :: "int option"
  customer_segment :: "'n cell list"

record 'n product =
  product_id :: "int option"
  product_variant :: "'n cell list"

definition customer_renames :: "(ustring \<times> ustring) list" where
  "customer_renames =
     [(ascii ''customersegmentid'', ascii ''customer_segmentid''),
      (ascii ''customersegment'', ascii ''customer_segment'')]"

definition product_renames :: "(ustring \<times> ustring) list" where
  "product_renames =
     [(ascii ''productid'', ascii ''product_id''), (ascii ''productvariant'', ascii ''product_variant'')]"

text \<open>
  The header of the customer frame after \<open>df.columns.str.strip().str.lower()\<close> and the
  renaming, and the header of the product frame after its renaming.
\<close>

definition customer_columns :: "'n library \<Rightarrow> 'n frame \<Rightarrow> ustring list" where
  "customer_columns lib df = rename_columns customer_renames (map (normalize_header lib) (columns df))"

definition product_columns :: "'n frame \<Rightarrow> ustring list" where
  "product_columns df = rename_columns product_renames (columns df)"

text \<open>
  The customer rows after the key column has been converted, before rows are dropped: one
  per input row, in input order.
\<close>

definition customer_rows :: "ustring list \<Rightarrow> int option list \<Rightarrow> 'n cell list list \<Rightarrow> 'n customer list" where
  "customer_rows cols keys rows =
     map (\<lambda>(k, r). \<lparr>customer_segmentid = k,
                     customer_segment = cells_of cols (ascii ''customer_segment'') r\<rparr>)
       (zip keys rows)"

definition norm_customers :: "'n library \<Rightarrow> 'n frame \<Rightarrow> error + 'n customer list" where
  "norm_customers lib df =
     (let cols = customer_columns lib df;
          missing = missing_columns [ascii ''customer_segmentid'', ascii ''customer_segment''] cols
      in if missing \<noteq> [] then Inl (KeyError missing)
         else case key_series lib (ascii ''Cc'') cols (body df) (ascii ''customer_segmentid'') of
                Inl e \<Rightarrow> Inl e
              | Inr keys \<Rightarrow>
                  Inr (drop_dupes customer_segmentid
                        (dropna customer_segmentid (customer_rows cols keys (body df)))))"

definition product_rows :: "ustring list \<Rightarrow> int option list \<Rightarrow> 'n cell list list \<Rightarrow> 'n product list" where
  "product_rows cols keys rows =
     map (\<lambda>(k, r). \<lparr>product_id = k, product_variant = cells_of cols (ascii ''product_variant'') r\<rparr>)
       (zip keys rows)"

text \<open>\<open>norm_products\<close> renames the header as it stands: it neither trims nor lower-cases it.\<close>

definition norm_products :: "'n library \<Rightarrow> 'n frame \<Rightarrow> error + 'n product list" where
  "norm_products lib df =
     (let cols = product_columns df;
          missing = missing_columns [ascii ''product_id'', ascii ''product_variant''] cols
      in if missing \<noteq> [] then Inl (KeyError missing)
         else case key_series lib (ascii ''Pp'') cols (body df) (ascii ''product_id'') of
                Inl e \<Rightarrow> Inl e
              | Inr keys \<Rightarrow>
                  Inr (drop_dupes product_id (dropna product_id (product_rows cols keys (body df)))))"

section \<open>The sales normaliser\<close>

record 'n sale =
  sales_id :: "int option"
  sale_customer_segmentid :: "int option"
  sale_product_id :: "int option"
  units_sold :: "'n option"
  sale_date :: "'n cell list"
  sale_amount :: "'n option"
  profit_margin :: "'n option"

definition sales_renames :: "(ustring \<times> ustring) list" where
  "sales_renames =
     [(ascii ''transactionid'', ascii ''sales_id''), (ascii ''customersegmentid'', ascii ''customer_segmentid''),
      (ascii ''productid'', ascii ''product_id''), (ascii ''date'', ascii ''sale_date''), (ascii ''unitssold'', ascii ''units_sold''),
      (ascii ''revenue'', ascii ''sale_amount''), (ascii ''profitmargin'', ascii ''profit_margin'')]"

definition sales_required :: "ustring list" where
  "sales_required =
     [ascii ''sales_id'', ascii ''customer_segmentid'', ascii ''product_id'', ascii ''units_sold'', ascii ''sale_date'',
      ascii ''sale_amount'', ascii ''profit_margin'']"

definition sales_columns :: "'n library \<Rightarrow> 'n frame \<Rightarrow> ustring list" where
  "sales_columns lib df = rename_columns sales_renames (map (normalize_header lib) (columns df))"

text \<open>\<open>pd.to_numeric(\<dots>, errors="coerce")\<close> on a cell, and on the column of a name.\<close>

definition to_numeric :: "'n library \<Rightarrow> 'n cell \<Rightarrow> 'n option" where
  "to_numeric lib c = (case c of NaN \<Rightarrow> None | Num v \<Rightarrow> Some v | Txt s \<Rightarrow> float_parse lib s)"

definition numeric_series :: "'n library \<Rightarrow> ustring list \<Rightarrow> 'n cell list list \<Rightarrow> ustring \<Rightarrow> error + 'n option list" where
  "numeric_series lib cols rows name =
     (case series TypeError cols rows name of
        Inl e \<Rightarrow> Inl e
      | Inr cells \<Rightarrow> Inr (map (to_numeric lib) cells))"

text \<open>
  \<open>pd.to_numeric(df["sales_id"], errors="coerce").astype("Int64")\<close>: the cast raises when a
  number of the column is not an integer.
\<close>

definition int_series :: "'n library \<Rightarrow> ustring list \<Rightarrow> 'n cell list list \<Rightarrow> ustring \<Rightarrow> error + int option list" where
  "int_series lib cols rows name =
     (case numeric_series lib cols rows name of
        Inl e \<Rightarrow> Inl e
      | Inr vs \<Rightarrow>
          if \<exists>v \<in> set vs. case v of None \<Rightarrow> False | Some x \<Rightarrow> float_int lib x = None
          then Inl TypeError
          else Inr (map (\<lambda>v. case v of None \<Rightarrow> None | Some x \<Rightarrow> float_int lib x) vs))"

text \<open>
  The sales frame after the conversions, each row under its index label: the labels are
  those of the frame read from the file, \<open>0, 1, 2, \<dots>\<close>.
\<close>

definition sales_rows ::
  "ustring list \<Rightarrow> int option list \<Rightarrow> int option list \<Rightarrow> int option list \<Rightarrow> 'n option list \<Rightarrow>
   'n option list \<Rightarrow> 'n option list \<Rightarrow> 'n cell list list \<Rightarrow> (nat \<times> 'n sale) list" where
  "sales_rows cols sid custs prods units amount margin rows =
     map (\<lambda>i. (i, \<lparr>sales_id = sid ! i, sale_customer_segmentid = custs ! i,
                    sale_product_id = prods ! i, units_sold = units ! i,
                    sale_date = cells_of cols (ascii ''sale_date'') (rows ! i),
                    sale_amount = amount ! i, profit_margin = margin ! i\<rparr>))
       [0..<length rows]"

text \<open>\<open>df.dropna(subset=["customer_segmentid", "product_id", "sale_amount"])\<close>.\<close>

definition critical_present :: "'n sale \<Rightarrow> bool" where
  "critical_present r =
     (sale_customer_segmentid r \<noteq> None \<and> sale_product_id r \<noteq> None \<and> sale_amount r \<noteq> None)"

definition dropna_sales :: "(nat \<times> 'n sale) list \<Rightarrow> (nat \<times> 'n sale) list" where
  "dropna_sales df = filter (\<lambda>(i, r). critical_present r) df"

text \<open>\<open>df["sales_id"].isna().any() or df["sales_id"].duplicated().any()\<close>.\<close>

definition needs_reset :: "(nat \<times> 'n sale) list \<Rightarrow> bool" where
  "needs_reset df =
     (None \<in> set (map (\<lambda>(i, r). sales_id r) df) \<or> \<not> distinct (map (\<lambda>(i, r). sales_id r) df))"

text \<open>\<open>df.reset_index(drop=True)\<close>: the labels become \<open>0, 1, 2, \<dots>\<close> again.\<close>

definition reset_index :: "(nat \<times> 'a) list \<Rightarrow> (nat \<times> 'a) list" where
  "reset_index df = zip [0..<length df] (map snd df)"

text \<open>\<open>df["sales_id"] = (df.index + 1).astype("Int64")\<close>: every row gets its label plus one.\<close>

definition assign_sales_id :: "(nat \<times> 'n sale) list \<Rightarrow> (nat \<times> 'n sale) list" where
  "assign_sales_id df = map (\<lambda>(i, r). (i, r\<lparr>sales_id := Some (int i + 1)\<rparr>)) df"

definition norm_sales :: "'n library \<Rightarrow> 'n frame \<Rightarrow> error + (nat \<times> 'n sale) list" where
  "norm_sales lib df =
     (let cols = sales_columns lib df;
          missing = missing_columns sales_required cols
      in if missing \<noteq> [] then Inl (KeyError missing)
         else case key_series lib (ascii ''Cc'') cols (body df) (ascii ''customer_segmentid'') of
           Inl e \<Rightarrow> Inl e
         | Inr custs \<Rightarrow>
         case key_series lib (ascii ''Pp'') cols (body df) (ascii ''product_id'') of
           Inl e \<Rightarrow> Inl e
         | Inr prods \<Rightarrow>
         case int_series lib cols (body df) (ascii ''sales_id'') of
           Inl e \<Rightarrow> Inl e
         | Inr sid \<Rightarrow>
         case numeric_series lib cols (body df) (ascii ''units_sold'') of
           Inl e \<Rightarrow> Inl e
         | Inr units \<Rightarrow>
         case numeric_series lib cols (body df) (ascii ''sale_amount'') of
           Inl e \<Rightarrow> Inl e
         | Inr amount \<Rightarrow>
         case numeric_series lib cols (body df) (ascii ''profit_margin'') of
           Inl e \<Rightarrow> Inl e
         | Inr margin \<Rightarrow>
             let kept = dropna_sales (sales_rows cols sid custs prods units amount margin (body df))
             in Inr (assign_sales_id (if needs_reset kept then reset_index kept else kept)))"

section \<open>The date dimension\<close>

text \<open>A calendar date, as \<open>datetime\<close> holds it (the time of day is always midnight here).\<close>

record date =
  year_of :: nat
  month_of :: nat
  day_of :: nat

definition is_leap :: "nat \<Rightarrow> bool" where
  "is_leap y = (y mod 4 = 0 \<and> (y mod 100 \<noteq> 0 \<or> y mod 400 = 0))"

definition days_in_month :: "nat \<Rightarrow> nat \<Rightarrow> nat" where
  "days_in_month y m =
     (if m = 2 then (if is_leap y then 29 else 28)
      else if m = 4 \<or> m = 6 \<or> m = 9 \<or> m = 11 then 30 else 31)"

text \<open>What the \<open>datetime\<close> constructor accepts.\<close>

definition valid_date :: "date \<Rightarrow> bool" where
  "valid_date dt =
     (1 \<le> year_of dt \<and> year_of dt \<le> 9999 \<and> 1 \<le> month_of dt \<and> month_of dt \<le> 12 \<and>
      1 \<le> day_of dt \<and> day_of dt \<le> days_in_month (year_of dt) (month_of dt))"

text \<open>\<open>date.toordinal()\<close>: the number of the day, counting 0001-01-01 as day 1.\<close>

definition days_before_year :: "nat \<Rightarrow> int" where
  "days_before_year y =
     365 * (int y - 1) + (int y - 1) div 4 - (int y - 1) div 100 + (int y - 1) div 400"

definition days_before_month :: "nat \<Rightarrow> nat \<Rightarrow> int" where
  "days_before_month y m = int (sum_list (map (days_in_month y) [1..<m]))"

definition toordinal :: "date \<Rightarrow> int" where
  "toordinal dt =
     days_before_year (year_of dt) + days_before_month (year_of dt) (month_of dt) + int (day_of dt)"

text \<open>The day after a date, and the date \<open>k\<close> days after a date.\<close>

definition next_day :: "date \<Rightarrow> date" where
  "next_day dt =
     (if day_of dt < days_in_month (year_of dt) (month_of dt) then dt\<lparr>day_of := day_of dt + 1\<rparr>
      else if month_of dt < 12 then dt\<lparr>month_of := month_of dt + 1, day_of := 1\<rparr>
      else \<lparr>year_of = year_of dt + 1, month_of = 1, day_of = 1\<rparr>)"

definition plus_days :: "date \<Rightarrow> nat \<Rightarrow> date" where
  "plus_days dt k = (next_day ^^ k) dt"

text \<open>Chronological order of dates, as \<open>datetime\<close> compares them: field by field.\<close>

definition date_le :: "date \<Rightarrow> date \<Rightarrow> bool" where
  "date_le a b =
     (year_of a < year_of b \<or>
      (year_of a = year_of b \<and>
        (month_of a < month_of b \<or> (month_of a = month_of b \<and> day_of a \<le> day_of b))))"

text \<open>
  \<open>datetime.strptime(s, "%Y-%m-%d")\<close>.  The directive \<open>%Y\<close> takes four digits (\<open>\d\d\d\d\<close>, of
  any script); \<open>%m\<close> takes \<open>1[0-2]\<close>, \<open>0[1-9]\<close> or \<open>[1-9]\<close>; \<open>%d\<close> takes \<open>3[01]\<close>, \<open>[12]\d\<close>,
  \<open>0[1-9]\<close>, \<open>[1-9]\<close> or a space and \<open>[1-9]\<close>; the whole string must be consumed, each field
  is read by \<open>int\<close>, and the fields must make a date.  The hyphen is the character 45, the
  space 32, and the digits \<open>0\<close> to \<open>9\<close> are the characters 48 to 57.
\<close>

definition digit_in :: "nat \<Rightarrow> nat \<Rightarrow> nat \<Rightarrow> bool" where
  "digit_in c lo hi = (48 + lo \<le> c \<and> c \<le> 48 + hi)"

definition month_token :: "'n library \<Rightarrow> ustring \<Rightarrow> nat option" where
  "month_token lib t =
     (case t of
        [a] \<Rightarrow> if digit_in a 1 9 then Some (nat (digits_value lib t)) else None
      | [a, b] \<Rightarrow>
          if (a = 49 \<and> digit_in b 0 2) \<or> (a = 48 \<and> digit_in b 1 9)
          then Some (nat (digits_value lib t)) else None
      | _ \<Rightarrow> None)"

definition day_token :: "'n library \<Rightarrow> ustring \<Rightarrow> nat option" where
  "day_token lib t =
     (case t of
        [a] \<Rightarrow> if digit_in a 1 9 then Some (nat (digits_value lib t)) else None
      | [a, b] \<Rightarrow>
          if (a = 51 \<and> digit_in b 0 1) \<or> (digit_in a 1 2 \<and> is_digit lib b) \<or>
             (a = 48 \<and> digit_in b 1 9)
          then Some (nat (digits_value lib t))
          else if a = 32 \<and> digit_in b 1 9 then Some (nat (digits_value lib [b]))
          else None
      | _ \<Rightarrow> None)"

definition strptime :: "'n library \<Rightarrow> ustring \<Rightarrow> error + date" where
  "strptime lib s =
     (if length s < 5 \<or> \<not> list_all (is_digit lib) (take 4 s) \<or> s ! 4 \<noteq> 45 then Inl ValueError
      else
        let rest = drop 5 s;
            mtok = takeWhile (\<lambda>c. c \<noteq> 45) rest;
            after = drop (length mtok) rest
        in case after of
             [] \<Rightarrow> Inl ValueError
           | _ # dtok \<Rightarrow>
               (case (month_token lib mtok, day_token lib dtok) of
                  (Some m, Some d) \<Rightarrow>
                    let dt = \<lparr>year_of = nat (digits_value lib (take 4 s)), month_of = m, day_of = d\<rparr>
                    in if valid_date dt then Inr dt else Inl ValueError
                | _ \<Rightarrow> Inl ValueError))"

text \<open>
  The dates a \<open>Timestamp\<close> of nanosecond resolution can hold at midnight:
  1677-09-22 to 2262-04-11.  \<open>pd.date_range\<close> raises outside of them.
\<close>

definition timestamp_min :: date where
  "timestamp_min = \<lparr>year_of = 1677, month_of = 9, day_of = 22\<rparr>"

definition timestamp_max :: date where
  "timestamp_max = \<lparr>year_of = 2262, month_of = 4, day_of = 11\<rparr>"

definition in_bounds :: "date \<Rightarrow> bool" where
  "in_bounds dt = (date_le timestamp_min dt \<and> date_le dt timestamp_max)"

text \<open>
  \<open>pd.date_range(start=start, end=end, freq="D")\<close>: the days \<open>start, start + 1, \<dots>\<close> up to
  \<open>end\<close>; none when \<open>end\<close> is before \<open>start\<close>.
\<close>

definition date_range :: "date \<Rightarrow> date \<Rightarrow> error + date list" where
  "date_range start end =
     (if \<not> in_bounds start \<or> \<not> in_bounds end then Inl OutOfBoundsDatetime
      else Inr (map (plus_days start) [0..<nat (toordinal end - toordinal start + 1)]))"

text \<open>
  A number in a field of fixed width, padded with zeros, as \<open>strftime\<close> prints it, and the
  integer that \<open>astype(int)\<close> reads from such digits.
\<close>

fun zero_padded :: "nat \<Rightarrow> nat \<Rightarrow> string" where
  "zero_padded 0 n = []"
| "zero_padded (Suc w) n = zero_padded w (n div 10) @ [char_of (48 + n mod 10)]"

definition ascii_decimal :: "string \<Rightarrow> int" where
  "ascii_decimal ds = foldl (\<lambda>a c. 10 * a + (int (of_char c) - 48)) 0 ds"

definition month_names :: "string list" where
  "month_names =
     [''January'', ''February'', ''March'', ''April'', ''May'', ''June'', ''July'', ''August'',
      ''September'', ''October'', ''November'', ''December'']"

text \<open>The ISO 8601 week of a date.\<close>

definition isoweek1monday :: "nat \<Rightarrow> int" where
  "isoweek1monday y =
     (let firstday = toordinal \<lparr>year_of = y, month_of = 1, day_of = 1\<rparr>;
          firstweekday = (firstday + 6) mod 7;
          week1monday = firstday - firstweekday
      in if firstweekday > 3 then week1monday + 7 else week1monday)"

definition isoweek :: "date \<Rightarrow> nat" where
  "isoweek dt =
     (let today = toordinal dt;
          week = (today - isoweek1monday (year_of dt)) div 7
      in if week < 0 then nat ((today - isoweek1monday (year_of dt - 1)) div 7 + 1)
         else if week \<ge> 52 \<and> today \<ge> isoweek1monday (year_of dt + 1) then 1
         else nat (week + 1))"

record date_row =
  date_id :: int
  full_date :: string
  year :: nat
  month :: nat
  month_name :: string
  day :: nat
  week :: nat

definition date_row_of :: "date \<Rightarrow> date_row" where
  "date_row_of dt =
     \<lparr>date_id = ascii_decimal (zero_padded 4 (year_of dt) @ zero_padded 2 (month_of dt) @
                                zero_padded 2 (day_of dt)),
      full_date = zero_padded 2 (month_of dt) @ ''/'' @ zero_padded 2 (day_of dt) @ ''/'' @
                  zero_padded 4 (year_of dt),
      year = year_of dt,
      month = month_of dt,
      month_name = month_names ! (month_of dt - 1),
      day = day_of dt,
      week = isoweek dt\<rparr>"

definition generate_date_dimension :: "'n library \<Rightarrow> ustring \<Rightarrow> ustring \<Rightarrow> error + date_row list" where
  "generate_date_dimension lib start_date end_date =
     (case strptime lib start_date of
        Inl e \<Rightarrow> Inl e
      | Inr start \<Rightarrow>
          (case strptime lib end_date of
             Inl e \<Rightarrow> Inl e
           | Inr end \<Rightarrow>
               (case date_range start end of
                  Inl e \<Rightarrow> Inl e
                | Inr days \<Rightarrow> Inr (map date_row_of days))))"

section \<open>The store\<close>

text \<open>
  A table of the SQLite database: its rows in insertion order, and whether it was created
  by \<open>create_schema\<close>, with the constraints of the schema, or by \<open>to_sql\<close> on a missing
  table, without any.  A database holds each of the four tables or not.
\<close>

record 'r table =
  constrained :: bool
  table_rows :: "'r list"

record 'n store =
  dim_date_table :: "date_row table option"
  customer_table :: "'n customer table option"
  product_table :: "'n product table option"
  sales_table :: "'n sale table option"

text \<open>What the run reports, in order.  Only \<open>NoValidSales\<close> is a warning.\<close>

datatype message =
    DeletingRows string
  | GeneratingDateDimension
  | InsertedDimDate nat
  | LoadingFile string
  | InsertedCustomers nat
  | InsertedProducts nat
  | ProcessingSales nat
  | SalesFilteredByFK nat nat
  | InsertedSales nat
  | NoValidSales
  | TableRowCounts
  | RowCount string nat
  | Completed

datatype level = INFO | WARNING

fun level_of :: "message \<Rightarrow> level" where
  "level_of NoValidSales = WARNING"
| "level_of _ = INFO"

text \<open>
  Inserting rows into a table whose primary key is an \<open>INTEGER PRIMARY KEY\<close>: a row without
  a key gets the largest key of the table plus one (1 in an empty table), a row whose key is
  already there fails the insert.
\<close>

definition next_rowid :: "('r \<Rightarrow> int option) \<Rightarrow> 'r list \<Rightarrow> int" where
  "next_rowid key tbl = (case List.map_filter key tbl of [] \<Rightarrow> 1 | k # ks \<Rightarrow> Max (set (k # ks)) + 1)"

fun sql_insert :: "('r \<Rightarrow> int option) \<Rightarrow> (int \<Rightarrow> 'r \<Rightarrow> 'r) \<Rightarrow> 'r list \<Rightarrow> 'r list \<Rightarrow> error + 'r list" where
  "sql_insert key set_key tbl [] = Inr tbl"
| "sql_insert key set_key tbl (r # rs) =
     (case key r of
        None \<Rightarrow> sql_insert key set_key (tbl @ [set_key (next_rowid key tbl) r]) rs
      | Some k \<Rightarrow>
          if Some k \<in> set (map key tbl) then Inl IntegrityError
          else sql_insert key set_key (tbl @ [r]) rs)"

text \<open>
  \<open>df.to_sql(name, connection, if_exists="append", index=False)\<close>.  A missing table is
  created from the frame, which SQLite refuses when the frame has a column name twice
  (\<open>creatable\<close>).  Into an existing table every row is inserted as SQLite stores it (\<open>stored\<close>:
  one value for each column); rows that break a constraint of the table fail the insert,
  which then leaves nothing behind.  \<open>admissible\<close> tells whether a row meets the constraints
  of the table other than the primary key (\<open>NOT NULL\<close>, foreign keys).
\<close>

definition to_sql ::
  "('r \<Rightarrow> int option) \<Rightarrow> (int \<Rightarrow> 'r \<Rightarrow> 'r) \<Rightarrow> ('r \<Rightarrow> bool) \<Rightarrow> ('r \<Rightarrow> 'r) \<Rightarrow> ('r \<Rightarrow> bool) \<Rightarrow>
   'r list \<Rightarrow> 'r table option \<Rightarrow> error + 'r table" where
  "to_sql key set_key admissible stored creatable df t =
     (case t of
        None \<Rightarrow>
          if list_all creatable df then Inr \<lparr>constrained = False, table_rows = df\<rparr>
          else Inl OperationalError
      | Some tb \<Rightarrow>
          if \<not> constrained tb then Inr (tb\<lparr>table_rows := table_rows tb @ map stored df\<rparr>)
          else if \<not> list_all admissible df then Inl IntegrityError
          else (case sql_insert key set_key (table_rows tb) (map stored df) of
                  Inl e \<Rightarrow> Inl e
                | Inr rows \<Rightarrow> Inr (tb\<lparr>table_rows := rows\<rparr>)))"

text \<open>
  The cells SQLite stores for one column of a row, given the cells the frame has under that
  name: nothing when the frame lacks the column, the cell when it has it once, and the cell
  SQLite keeps when it has it several times.
\<close>

definition stored_cells :: "'n library \<Rightarrow> 'n cell list \<Rightarrow> 'n cell list" where
  "stored_cells lib cs = (case cs of [] \<Rightarrow> [NaN] | [c] \<Rightarrow> [c] | _ \<Rightarrow> [kept_cell lib cs])"

definition create_schema :: "'n store \<Rightarrow> 'n store" where
  "create_schema st =
     \<lparr>dim_date_table = Some \<lparr>constrained = True, table_rows = []\<rparr>,
      customer_table = Some \<lparr>constrained = True, table_rows = []\<rparr>,
      product_table = Some \<lparr>constrained = True, table_rows = []\<rparr>,
      sales_table = Some \<lparr>constrained = True, table_rows = []\<rparr>\<rparr>"

text \<open>\<open>DELETE FROM\<close> a table: it fails on a table that does not exist.\<close>

definition delete_from :: "'r table option \<Rightarrow> error + 'r table option" where
  "delete_from t = (case t of None \<Rightarrow> Inl OperationalError | Some tb \<Rightarrow> Inr (Some (tb\<lparr>table_rows := []\<rparr>)))"

definition delete_existing_records :: "'n store \<Rightarrow> error + ('n store \<times> message list)" where
  "delete_existing_records st =
     (case delete_from (sales_table st) of Inl e \<Rightarrow> Inl e | Inr s \<Rightarrow>
      case delete_from (product_table st) of Inl e \<Rightarrow> Inl e | Inr p \<Rightarrow>
      case delete_from (customer_table st) of Inl e \<Rightarrow> Inl e | Inr c \<Rightarrow>
      case delete_from (dim_date_table st) of Inl e \<Rightarrow> Inl e | Inr d \<Rightarrow>
        Inr (\<lparr>dim_date_table = d, customer_table = c, product_table = p, sales_table = s\<rparr>,
             [DeletingRows ''sales'', DeletingRows ''product'', DeletingRows ''customer'',
              DeletingRows ''dim_date'']))"

definition insert_dim_date :: "date_row list \<Rightarrow> 'n store \<Rightarrow> error + ('n store \<times> message list)" where
  "insert_dim_date df st =
     (case to_sql (\<lambda>r. Some (date_id r)) (\<lambda>k r. r\<lparr>date_id := k\<rparr>) (\<lambda>r. True) (\<lambda>r. r) (\<lambda>r. True) df
             (dim_date_table st) of
        Inl e \<Rightarrow> Inl e
      | Inr t \<Rightarrow> Inr (st\<lparr>dim_date_table := Some t\<rparr>, [InsertedDimDate (length df)]))"

definition insert_customers ::
  "'n library \<Rightarrow> 'n customer list \<Rightarrow> 'n store \<Rightarrow> error + ('n store \<times> message list)" where
  "insert_customers lib df st =
     (case to_sql customer_segmentid (\<lambda>k r. r\<lparr>customer_segmentid := Some k\<rparr>) (\<lambda>r. True)
             (\<lambda>r. r\<lparr>customer_segment := stored_cells lib (customer_segment r)\<rparr>)
             (\<lambda>r. length (customer_segment r) \<le> 1) df (customer_table st) of
        Inl e \<Rightarrow> Inl e
      | Inr t \<Rightarrow> Inr (st\<lparr>customer_table := Some t\<rparr>, [InsertedCustomers (length df)]))"

definition insert_products ::
  "'n library \<Rightarrow> 'n product list \<Rightarrow> 'n store \<Rightarrow> error + ('n store \<times> message list)" where
  "insert_products lib df st =
     (case to_sql product_id (\<lambda>k r. r\<lparr>product_id := Some k\<rparr>) (\<lambda>r. True)
             (\<lambda>r. r\<lparr>product_variant := stored_cells lib (product_variant r)\<rparr>)
             (\<lambda>r. length (product_variant r) \<le> 1) df (product_table st) of
        Inl e \<Rightarrow> Inl e
      | Inr t \<Rightarrow> Inr (st\<lparr>product_table := Some t\<rparr>, [InsertedProducts (length df)]))"

text \<open>\<open>Series.isin\<close> of a set of integers read from the store: a missing value is never in.\<close>

definition isin :: "int option \<Rightarrow> int list \<Rightarrow> bool" where
  "isin v valid = (case v of None \<Rightarrow> False | Some k \<Rightarrow> k \<in> set valid)"

text \<open>
  What the schema asks of a sales row besides its primary key: the two references and the
  amount are present, and with \<open>PRAGMA foreign_keys = ON\<close> the references exist.
\<close>

definition sale_admissible :: "int list \<Rightarrow> int list \<Rightarrow> 'n sale \<Rightarrow> bool" where
  "sale_admissible customer_keys product_keys r =
     (critical_present r \<and> isin (sale_customer_segmentid r) customer_keys \<and>
      isin (sale_product_id r) product_keys)"

definition insert_sales ::
  "'n library \<Rightarrow> (nat \<times> 'n sale) list \<Rightarrow> 'n store \<Rightarrow> error + ('n store \<times> message list)" where
  "insert_sales lib df st =
     (case customer_table st of
        None \<Rightarrow> Inl OperationalError
      | Some cs \<Rightarrow>
     (case product_table st of
        None \<Rightarrow> Inl OperationalError
      | Some ps \<Rightarrow>
          let valid_customer_segmentids = List.map_filter customer_segmentid (table_rows cs);
              valid_product_ids = List.map_filter product_id (table_rows ps);
              before = length df;
              df1 = filter (\<lambda>(i, r). isin (sale_customer_segmentid r) valid_customer_segmentids) df;
              df2 = filter (\<lambda>(i, r). isin (sale_product_id r) valid_product_ids) df1;
              after = length df2;
              logged = [ProcessingSales before, SalesFilteredByFK before after]
          in if after > 0
             then (case to_sql sales_id (\<lambda>k r. r\<lparr>sales_id := Some k\<rparr>)
                          (sale_admissible valid_customer_segmentids valid_product_ids)
                          (\<lambda>r. r\<lparr>sale_date := stored_cells lib (sale_date r)\<rparr>)
                          (\<lambda>r. length (sale_date r) \<le> 1)
                          (map snd df2) (sales_table st) of
                     Inl e \<Rightarrow> Inl e
                   | Inr t \<Rightarrow> Inr (st\<lparr>sales_table := Some t\<rparr>, logged @ [InsertedSales after]))
             else Inr (st, logged @ [NoValidSales])))"

text \<open>\<open>SELECT COUNT(*)\<close> of each table, reported.\<close>

definition count_rows :: "string \<Rightarrow> 'r table option \<Rightarrow> error + message" where
  "count_rows name t =
     (case t of None \<Rightarrow> Inl OperationalError | Some tb \<Rightarrow> Inr (RowCount name (length (table_rows tb))))"

definition print_table_row_counts :: "'n store \<Rightarrow> error + message list" where
  "print_table_row_counts st =
     (case count_rows ''dim_date'' (dim_date_table st) of Inl e \<Rightarrow> Inl e | Inr d \<Rightarrow>
      case count_rows ''customer'' (customer_table st) of Inl e \<Rightarrow> Inl e | Inr c \<Rightarrow>
      case count_rows ''product'' (product_table st) of Inl e \<Rightarrow> Inl e | Inr p \<Rightarrow>
      case count_rows ''sales'' (sales_table st) of Inl e \<Rightarrow> Inl e | Inr s \<Rightarrow>
        Inr [TableRowCounts, d, c, p, s])"

section \<open>The pipeline\<close>

text \<open>The three prepared files: a file is missing, or holds a frame.\<close>

record 'n files =
  customers_clean :: "'n frame option"
  key_lime_products_clean :: "'n frame option"
  sales_fact_clean :: "'n frame option"

text \<open>
  One step of the run on the store, after the messages logged so far; an error ends the
  run.
\<close>

definition and_then ::
  "error + ('s \<times> message list) \<Rightarrow> ('s \<Rightarrow> error + ('t \<times> message list)) \<Rightarrow> error + ('t \<times> message list)" where
  "and_then r f =
     (case r of
        Inl e \<Rightarrow> Inl e
      | Inr (st, logged) \<Rightarrow>
          (case f st of Inl e \<Rightarrow> Inl e | Inr (st', later) \<Rightarrow> Inr (st', logged @ later)))"

definition read_csv :: "string \<Rightarrow> 'n frame option \<Rightarrow> error + 'n frame" where
  "read_csv name file = (case file of None \<Rightarrow> Inl (FileNotFoundError name) | Some df \<Rightarrow> Inr df)"

definition load_customers :: "'n library \<Rightarrow> 'n files \<Rightarrow> 'n store \<Rightarrow> error + ('n store \<times> message list)" where
  "load_customers lib fs st =
     (case read_csv ''customers_clean.csv'' (customers_clean fs) of
        Inl e \<Rightarrow> Inl e
      | Inr df \<Rightarrow>
          (case norm_customers lib df of
             Inl e \<Rightarrow> Inl e
           | Inr customers_df \<Rightarrow>
               and_then (Inr (st, [LoadingFile ''customers_clean.csv'']))
                 (insert_customers lib customers_df)))"

definition load_products :: "'n library \<Rightarrow> 'n files \<Rightarrow> 'n store \<Rightarrow> error + ('n store \<times> message list)" where
  "load_products lib fs st =
     (case read_csv ''key_lime_products_clean.csv'' (key_lime_products_clean fs) of
        Inl e \<Rightarrow> Inl e
      | Inr df \<Rightarrow>
          (case norm_products lib df of
             Inl e \<Rightarrow> Inl e
           | Inr products_df \<Rightarrow>
               and_then (Inr (st, [LoadingFile ''key_lime_products_clean.csv'']))
                 (insert_products lib products_df)))"

definition load_sales :: "'n library \<Rightarrow> 'n files \<Rightarrow> 'n store \<Rightarrow> error + ('n store \<times> message list)" where
  "load_sales lib fs st =
     (case read_csv ''sales_fact_clean.csv'' (sales_fact_clean fs) of
        Inl e \<Rightarrow> Inl e
      | Inr df \<Rightarrow>
          (case norm_sales lib df of
             Inl e \<Rightarrow> Inl e
           | Inr sales_df \<Rightarrow>
               and_then (Inr (st, [LoadingFile ''sales_fact_clean.csv''])) (insert_sales lib sales_df)))"

definition load_dim_date :: "'n library \<Rightarrow> 'n store \<Rightarrow> error + ('n store \<times> message list)" where
  "load_dim_date lib st =
     (case generate_date_dimension lib (ascii ''2022-01-01'') (ascii ''2026-01-01'') of
        Inl e \<Rightarrow> Inl e
      | Inr dim_date_df \<Rightarrow>
          and_then (Inr (st, [GeneratingDateDimension])) (insert_dim_date dim_date_df))"

definition report :: "'n store \<Rightarrow> error + ('n store \<times> message list)" where
  "report st =
     (case print_table_row_counts st of
        Inl e \<Rightarrow> Inl e
      | Inr counts \<Rightarrow> Inr (st, counts @ [Completed]))"

definition load_data_to_db ::
  "'n library \<Rightarrow> bool \<Rightarrow> 'n files \<Rightarrow> 'n store \<Rightarrow> error + ('n store \<times> message list)" where
  "load_data_to_db lib truncate_flag fs st =
     and_then (and_then (and_then (and_then (and_then
       (if truncate_flag then delete_existing_records (create_schema st)
        else Inr (create_schema st, []))
       (load_dim_date lib))
       (load_customers lib fs))
       (load_products lib fs))
       (load_sales lib fs))
       report"

section \<open>Reference notions for the statements\<close>

text \<open>
  The pattern of the specification, \<open>^[Cc]\d+$\<close>: one letter of the class, then one or more
  digits, and nothing else.
\<close>

definition spec_code_match :: "'n library \<Rightarrow> ustring \<Rightarrow> ustring \<Rightarrow> bool" where
  "spec_code_match lib cls s =
     (case s of [] \<Rightarrow> False | c # ds \<Rightarrow> c \<in> set cls \<and> ds \<noteq> [] \<and> list_all (is_digit lib) ds)"

text \<open>
  What the key of a cell is, read off its trimmed text \<open>t\<close>: the value of the digits when \<open>t\<close>
  is a letter of the class and digits only; missing exactly when no letter of the class is
  directly followed by a digit anywhere in \<open>t\<close>; otherwise the value of the longest run of
  digits after the leftmost letter of the class that a digit follows, which is not negative
  and fits 64 bits.
\<close>

definition key_of_text :: "'n library \<Rightarrow> ustring \<Rightarrow> ustring \<Rightarrow> int option \<Rightarrow> bool" where
  "key_of_text lib cls t key =
     ((spec_code_match lib cls t \<longrightarrow> key = Some (digits_value lib (tl t))) \<and>
      (key = None \<longleftrightarrow> \<not> (\<exists>j. Suc j < length t \<and> t ! j \<in> set cls \<and> is_digit lib (t ! Suc j))) \<and>
      (\<forall>k. key = Some k \<longrightarrow>
         (\<exists>pre c ds rest. t = pre @ c # ds @ rest \<and> c \<in> set cls \<and> ds \<noteq> [] \<and>
            (\<forall>d \<in> set ds. is_digit lib d) \<and> (rest = [] \<or> \<not> is_digit lib (hd rest)) \<and>
            (\<forall>j < length pre. \<not> (t ! j \<in> set cls \<and> is_digit lib (t ! Suc j))) \<and>
            k = digits_value lib ds \<and> 0 \<le> k \<and> k \<le> int64_max)))"

text \<open>A natural number in decimal, without padding.\<close>

fun dec_nat :: "nat \<Rightarrow> ustring" where
  "dec_nat n = (if n < 10 then [48 + n] else dec_nat (n div 10) @ [48 + n mod 10])"

declare dec_nat.simps [simp del]

text \<open>
  A library for the examples, whose text is ASCII and whose numbers are whole: white space
  is what \<open>str.isspace\<close> accepts, the decimal digits are \<open>0\<close> to \<open>9\<close> (those of other scripts
  are left out), \<open>A\<close> to \<open>Z\<close> are lowered, a number prints as its digits, a text of digits
  reads as a number, every number is an integer, and of several values for one column the
  first is kept.
\<close>

definition ascii_library :: "int library" where
  "ascii_library =
     \<lparr>uc_space = (\<lambda>c. c \<in> set ([9, 10, 11, 12, 13, 28, 29, 30, 31, 32, 133, 160, 5760] @
                                [8192..<8203] @ [8232, 8233, 8239, 8287, 12288])),
      uc_decimal = (\<lambda>c. if 48 \<le> c \<and> c \<le> 57 then Some (c - 48) else None),
      uc_lower = map (\<lambda>c. if 65 \<le> c \<and> c \<le> 90 then c + 32 else c),
      float_repr = (\<lambda>v. if v < 0 then 45 # dec_nat (nat (- v)) else dec_nat (nat v)),
      float_parse = (\<lambda>s. if s \<noteq> [] \<and> list_all (\<lambda>c. 48 \<le> c \<and> c \<le> 57) s
                          then Some (foldl (\<lambda>a c. 10 * a + (int c - 48)) 0 s) else None),
      float_int = Some,
      kept_cell = hd\<rparr>"

text \<open>A date of the calendar: \<open>valid_date\<close> without the upper limit on the year.\<close>

definition calendar_date :: "date \<Rightarrow> bool" where
  "calendar_date dt =
     (1 \<le> year_of dt \<and> 1 \<le> month_of dt \<and> month_of dt \<le> 12 \<and>
      1 \<le> day_of dt \<and> day_of dt \<le> days_in_month (year_of dt) (month_of dt))"

section \<open>Deduplication keeps the first row of every key\<close>

lemma drop_dupes_from_keys:
  "x \<in> set (drop_dupes_from seen key xs) \<Longrightarrow> x \<in> set xs \<and> key x \<notin> set seen"
proof (induction xs arbitrary: seen)
  case Nil
  then show ?case by simp
next
  case (Cons a xs)
  show ?case
  proof (cases "key a \<in> set seen")
    case True
    with Cons.prems have "x \<in> set (drop_dupes_from seen key xs)" by simp
    from Cons.IH [OF this] show ?thesis by simp
  next
    case False
    with Cons.prems consider "x = a" | "x \<in> set (drop_dupes_from (key a # seen) key xs)"
      by auto
    then show ?thesis
    proof cases
      case 1
      with False show ?thesis by simp
    next
      case 2
      from Cons.IH [OF 2] show ?thesis by simp
    qed
  qed
qed

lemma drop_dupes_from_distinct: "distinct (map key (drop_dupes_from seen key xs))"
proof (induction xs arbitrary: seen)
  case Nil
  show ?case by simp
next
  case (Cons x xs)
  show ?case
  proof (cases "key x \<in> set seen")
    case True
    then show ?thesis using Cons.IH by simp
  next
    case False
    have "key x \<notin> key ` set (drop_dupes_from (key x # seen) key xs)"
    proof
      assume "key x \<in> key ` set (drop_dupes_from (key x # seen) key xs)"
      then obtain y where y: "y \<in> set (drop_dupes_from (key x # seen) key xs)" "key y = key x"
        by auto
      from drop_dupes_from_keys [OF y(1)] y(2) show False by simp
    qed
    then show ?thesis using False Cons.IH by simp
  qed
qed

lemma drop_dupes_from_first:
  "x \<in> set (drop_dupes_from seen key xs) \<Longrightarrow> List.find (\<lambda>y. key y = key x) xs = Some x"
proof (induction xs arbitrary: seen)
  case Nil
  then show ?case by simp
next
  case (Cons a xs)
  show ?case
  proof (cases "key a \<in> set seen")
    case True
    with Cons.prems have mem: "x \<in> set (drop_dupes_from seen key xs)" by simp
    then have "key x \<notin> set seen" using drop_dupes_from_keys by fastforce
    with True have "key a \<noteq> key x" by auto
    then show ?thesis using Cons.IH [OF mem] by simp
  next
    case False
    with Cons.prems consider "x = a" | "x \<in> set (drop_dupes_from (key a # seen) key xs)"
      by auto
    then show ?thesis
    proof cases
      case 1
      then show ?thesis by simp
    next
      case 2
      then have "key x \<notin> set (key a # seen)" using drop_dupes_from_keys by fastforce
      then have "key a \<noteq> key x" by auto
      then show ?thesis using Cons.IH [OF 2] by simp
    qed
  qed
qed

lemma drop_dupes_from_subseq: "subseq (drop_dupes_from seen key xs) xs"
  by (induction xs arbitrary: seen) auto

lemma drop_dupes_from_covers:
  "x \<in> set xs \<Longrightarrow> key x \<notin> set seen \<Longrightarrow> key x \<in> key ` set (drop_dupes_from seen key xs)"
proof (induction xs arbitrary: seen)
  case Nil
  then show ?case by simp
next
  case (Cons a xs)
  show ?case
  proof (cases "key a \<in> set seen")
    case True
    with Cons.prems have "x \<in> set xs" by auto
    from Cons.IH [OF this Cons.prems(2)] True show ?thesis by simp
  next
    case False
    show ?thesis
    proof (cases "key x = key a")
      case True
      with False show ?thesis by simp
    next
      case neq: False
      with Cons.prems have "x \<in> set xs" "key x \<notin> set (key a # seen)" by auto
      from Cons.IH [OF this] False show ?thesis by auto
    qed
  qed
qed

lemma find_filter_conj: "List.find P (filter Q xs) = List.find (\<lambda>x. Q x \<and> P x) xs"
  by (induction xs) auto

lemma dedupe_first_occurrence:
  assumes "r \<in> set (drop_dupes key (dropna key rows))"
  shows "key r \<noteq> None \<and> (\<exists>i<length rows. rows ! i = r \<and> (\<forall>j<i. key (rows ! j) \<noteq> key r))"
proof -
  let ?P = "\<lambda>x. key x \<noteq> None \<and> key x = key r"
  from assms have mem: "r \<in> set (dropna key rows)"
    using drop_dupes_from_keys [of r "[]" key] by (simp add: drop_dupes_def)
  then have some: "key r \<noteq> None" by (simp add: dropna_def)
  from assms have "List.find (\<lambda>y. key y = key r) (dropna key rows) = Some r"
    by (simp add: drop_dupes_def drop_dupes_from_first)
  then have "List.find ?P rows = Some r"
    by (simp add: dropna_def find_filter_conj)
  then have "\<exists>i<length rows. ?P (rows ! i) \<and> r = rows ! i \<and> (\<forall>j<i. \<not> ?P (rows ! j))"
    by (simp only: find_Some_iff)
  then obtain i where i: "i < length rows" "r = rows ! i" and least: "\<forall>j<i. \<not> ?P (rows ! j)"
    by blast
  have "\<forall>j<i. key (rows ! j) \<noteq> key r"
  proof (intro allI impI)
    fix j assume "j < i"
    with least have "\<not> ?P (rows ! j)" by simp
    with some show "key (rows ! j) \<noteq> key r" by auto
  qed
  with i some show ?thesis by auto
qed

lemma dedupe_distinct: "distinct (map key (drop_dupes key (dropna key rows)))"
  by (simp add: drop_dupes_def drop_dupes_from_distinct)

lemma dedupe_subseq: "subseq (drop_dupes key (dropna key rows)) rows"
proof -
  have "subseq (drop_dupes key (dropna key rows)) (dropna key rows)"
    by (simp add: drop_dupes_def drop_dupes_from_subseq)
  moreover have "subseq (dropna key rows) rows"
    by (simp add: dropna_def)
  ultimately show ?thesis by (rule subseq_order.trans)
qed

lemma dedupe_covers:
  "key ` set (drop_dupes key (dropna key rows)) = key ` set rows - {None}"
proof (intro equalityI subsetI)
  fix k assume "k \<in> key ` set (drop_dupes key (dropna key rows))"
  then obtain x where x: "x \<in> set (drop_dupes_from [] key (dropna key rows))" "key x = k"
    unfolding drop_dupes_def by blast
  from drop_dupes_from_keys [OF x(1)] have "x \<in> set (dropna key rows)" by simp
  then have "x \<in> set rows" "key x \<noteq> None" by (simp_all add: dropna_def)
  with x(2) show "k \<in> key ` set rows - {None}" by blast
next
  fix k assume "k \<in> key ` set rows - {None}"
  then obtain x where "x \<in> set rows" "key x = k" "k \<noteq> None" by blast
  then have "x \<in> set (dropna key rows)" by (simp add: dropna_def)
  from drop_dupes_from_covers [OF this, of key "[]"] \<open>key x = k\<close>
  show "k \<in> key ` set (drop_dupes key (dropna key rows))" by (simp add: drop_dupes_def)
qed

lemma drop_dupes_from_snoc:
  "drop_dupes_from seen key (xs @ [x]) =
     drop_dupes_from seen key xs @ (if key x \<in> set seen \<union> key ` set xs then [] else [x])"
proof (induction xs arbitrary: seen)
  case Nil
  show ?case by simp
next
  case (Cons a xs)
  show ?case
  proof (cases "key a \<in> set seen")
    case True
    then have "key x \<in> set seen \<union> key ` set (a # xs) \<longleftrightarrow> key x \<in> set seen \<union> key ` set xs"
      by auto
    with True Cons.IH [of seen] show ?thesis by simp
  next
    case False
    have "key x \<in> set seen \<union> key ` set (a # xs) \<longleftrightarrow> key x \<in> set (key a # seen) \<union> key ` set xs"
      by auto
    with False Cons.IH [of "key a # seen"] show ?thesis by simp
  qed
qed

lemma dedupe_snoc:
  "drop_dupes key (dropna key (xs @ [x])) =
     drop_dupes key (dropna key xs) @
       (if key x \<noteq> None \<and> key x \<notin> key ` set xs then [x] else [])"
proof (cases "key x = None")
  case True
  then show ?thesis by (simp add: dropna_def)
next
  case False
  have "key x \<in> key ` set (dropna key xs) \<longleftrightarrow> key x \<in> key ` set xs"
    using False by (auto simp: dropna_def)
  with False show ?thesis
    by (simp add: dropna_def drop_dupes_def drop_dupes_from_snoc)
qed

text \<open>
  The rows that survive \<open>dropna\<close> and the deduplication are the rows at the positions whose
  key is present and is not the key of an earlier row, in order.
\<close>

lemma dedupe_positions:
  "drop_dupes key (dropna key rows) =
     map (\<lambda>i. rows ! i)
       (filter (\<lambda>i. key (rows ! i) \<noteq> None \<and> (\<forall>j<i. key (rows ! j) \<noteq> key (rows ! i)))
          [0..<length rows])"
proof (induction rows rule: rev_induct)
  case Nil
  show ?case by (simp add: dropna_def drop_dupes_def)
next
  case (snoc x xs)
  let ?n = "length xs"
  let ?P = "\<lambda>rows i. key (rows ! i) \<noteq> None \<and> (\<forall>j<i. key (rows ! j) \<noteq> key (rows ! i))"
  have same: "filter (?P (xs @ [x])) [0..<?n] = filter (?P xs) [0..<?n]"
    by (rule filter_cong) (auto simp: nth_append)
  have vals: "map (\<lambda>i. (xs @ [x]) ! i) (filter (?P xs) [0..<?n]) = map (\<lambda>i. xs ! i) (filter (?P xs) [0..<?n])"
    by (rule map_cong) (auto simp: nth_append)
  have last: "?P (xs @ [x]) ?n \<longleftrightarrow> key x \<noteq> None \<and> key x \<notin> key ` set xs"
  proof -
    have "(\<forall>j<?n. key ((xs @ [x]) ! j) \<noteq> key x) \<longleftrightarrow> key x \<notin> key ` set xs"
    proof
      assume h: "\<forall>j<?n. key ((xs @ [x]) ! j) \<noteq> key x"
      show "key x \<notin> key ` set xs"
      proof
        assume "key x \<in> key ` set xs"
        then obtain y where "y \<in> set xs" "key y = key x" by auto
        then obtain j where "j < ?n" "xs ! j = y" by (auto simp: in_set_conv_nth)
        with h \<open>key y = key x\<close> show False by (auto simp: nth_append)
      qed
    next
      assume h: "key x \<notin> key ` set xs"
      show "\<forall>j<?n. key ((xs @ [x]) ! j) \<noteq> key x"
      proof (intro allI impI)
        fix j assume "j < ?n"
        then have "xs ! j \<in> set xs" by simp
        then have "key (xs ! j) \<in> key ` set xs" by (rule imageI)
        with h have "key (xs ! j) \<noteq> key x" by metis
        with \<open>j < ?n\<close> show "key ((xs @ [x]) ! j) \<noteq> key x" by (simp add: nth_append)
      qed
    qed
    then show ?thesis by simp
  qed
  have "map (\<lambda>i. (xs @ [x]) ! i) (filter (?P (xs @ [x])) [0..<length (xs @ [x])]) =
        map (\<lambda>i. xs ! i) (filter (?P xs) [0..<?n]) @
          (if key x \<noteq> None \<and> key x \<notin> key ` set xs then [x] else [])"
    using same vals last by simp
  with snoc.IH dedupe_snoc [of key xs x] show ?case by simp
qed

section \<open>The key extractor\<close>

lemma str_extract_digits:
  "str_extract lib cls s = Some ds \<Longrightarrow> ds \<noteq> [] \<and> (\<forall>d \<in> set ds. is_digit lib d)"
proof (induction s)
  case Nil
  then show ?case by simp
next
  case (Cons c cs)
  show ?case
  proof (cases "c \<in> set cls \<and> takeWhile (is_digit lib) cs \<noteq> []")
    case True
    with Cons.prems have "ds = takeWhile (is_digit lib) cs" by simp
    with True show ?thesis by (auto dest: set_takeWhileD)
  next
    case False
    with Cons.prems have "str_extract lib cls cs = Some ds" by auto
    then show ?thesis by (rule Cons.IH)
  qed
qed

lemma str_extract_occurrence:
  "str_extract lib cls s = Some ds \<Longrightarrow>
     \<exists>pre c rest. s = pre @ c # ds @ rest \<and> c \<in> set cls \<and> (rest = [] \<or> \<not> is_digit lib (hd rest))"
proof (induction s)
  case Nil
  then show ?case by simp
next
  case (Cons c cs)
  show ?case
  proof (cases "c \<in> set cls \<and> takeWhile (is_digit lib) cs \<noteq> []")
    case True
    with Cons.prems have ds: "ds = takeWhile (is_digit lib) cs" by simp
    have split: "cs = ds @ dropWhile (is_digit lib) cs" by (simp add: ds)
    have "dropWhile (is_digit lib) cs = [] \<or> \<not> is_digit lib (hd (dropWhile (is_digit lib) cs))"
      using hd_dropWhile [of "is_digit lib" cs] by blast
    with True split have "c # cs = [] @ c # ds @ dropWhile (is_digit lib) cs \<and> c \<in> set cls \<and>
        (dropWhile (is_digit lib) cs = [] \<or> \<not> is_digit lib (hd (dropWhile (is_digit lib) cs)))"
      by simp
    then show ?thesis by blast
  next
    case False
    with Cons.prems have "str_extract lib cls cs = Some ds" by auto
    from Cons.IH [OF this] obtain pre c' rest where
      "cs = pre @ c' # ds @ rest" "c' \<in> set cls" "rest = [] \<or> \<not> is_digit lib (hd rest)"
      by blast
    then have "c # cs = (c # pre) @ c' # ds @ rest \<and> c' \<in> set cls \<and> (rest = [] \<or> \<not> is_digit lib (hd rest))"
      by simp
    then show ?thesis by blast
  qed
qed

lemma str_extract_None_iff:
  "str_extract lib cls s = None \<longleftrightarrow> \<not> (\<exists>i. Suc i < length s \<and> s ! i \<in> set cls \<and> is_digit lib (s ! Suc i))"
proof (induction s)
  case Nil
  show ?case by simp
next
  case (Cons c cs)
  have tw: "takeWhile (is_digit lib) cs \<noteq> [] \<longleftrightarrow> (0 < length cs \<and> is_digit lib (cs ! 0))"
    by (cases cs) auto
  show ?case
  proof (cases "c \<in> set cls \<and> takeWhile (is_digit lib) cs \<noteq> []")
    case True
    with tw have "Suc 0 < length (c # cs) \<and> (c # cs) ! 0 \<in> set cls \<and> is_digit lib ((c # cs) ! Suc 0)"
      by simp
    then have "\<exists>i. Suc i < length (c # cs) \<and> (c # cs) ! i \<in> set cls \<and> is_digit lib ((c # cs) ! Suc i)"
      by blast
    with True show ?thesis by simp
  next
    case False
    have "(\<exists>i. Suc i < length (c # cs) \<and> (c # cs) ! i \<in> set cls \<and> is_digit lib ((c # cs) ! Suc i))
        \<longleftrightarrow> (\<exists>i. Suc i < length cs \<and> cs ! i \<in> set cls \<and> is_digit lib (cs ! Suc i))"
    proof
      assume "\<exists>i. Suc i < length (c # cs) \<and> (c # cs) ! i \<in> set cls \<and> is_digit lib ((c # cs) ! Suc i)"
      then obtain i where i: "Suc i < length (c # cs)" "(c # cs) ! i \<in> set cls"
          "is_digit lib ((c # cs) ! Suc i)" by blast
      show "\<exists>i. Suc i < length cs \<and> cs ! i \<in> set cls \<and> is_digit lib (cs ! Suc i)"
      proof (cases i)
        case 0
        with i False tw show ?thesis by simp
      next
        case (Suc k)
        with i have "Suc k < length cs \<and> cs ! k \<in> set cls \<and> is_digit lib (cs ! Suc k)" by simp
        then show ?thesis by blast
      qed
    next
      assume "\<exists>i. Suc i < length cs \<and> cs ! i \<in> set cls \<and> is_digit lib (cs ! Suc i)"
      then obtain i where "Suc i < length cs" "cs ! i \<in> set cls" "is_digit lib (cs ! Suc i)" by blast
      then have "Suc (Suc i) < length (c # cs) \<and> (c # cs) ! Suc i \<in> set cls \<and>
          is_digit lib ((c # cs) ! Suc (Suc i))" by simp
      then show "\<exists>i. Suc i < length (c # cs) \<and> (c # cs) ! i \<in> set cls \<and> is_digit lib ((c # cs) ! Suc i)"
        by blast
    qed
    with False Cons.IH show ?thesis by auto
  qed
qed

lemma str_extract_anchored:
  assumes "c \<in> set cls" "ds \<noteq> []" "\<forall>d \<in> set ds. is_digit lib d"
  shows "str_extract lib cls (c # ds) = Some ds"
proof -
  from assms(3) have tw: "takeWhile (is_digit lib) ds = ds" by (simp add: takeWhile_eq_all_conv)
  from assms(1,2) show ?thesis by (simp add: tw)
qed

lemma digits_value_foldl_nonneg:
  "0 \<le> a \<Longrightarrow> \<forall>d \<in> set ds. is_digit lib d \<Longrightarrow> 0 \<le> foldl (\<lambda>a c. 10 * a + digit_value lib c) a ds"
proof (induction ds arbitrary: a)
  case Nil
  then show ?case by simp
next
  case (Cons d ds)
  have "0 \<le> digit_value lib d" by (simp add: digit_value_def split: option.splits)
  with Cons.prems have "0 \<le> 10 * a + digit_value lib d" by simp
  from Cons.IH [OF this] Cons.prems show ?case by simp
qed

lemma digits_value_nonneg: "\<forall>d \<in> set ds. is_digit lib d \<Longrightarrow> 0 \<le> digits_value lib ds"
  unfolding digits_value_def by (rule digits_value_foldl_nonneg) simp_all

lemma astype_Int64_values:
  assumes "astype_Int64 lib xs = Inr keys"
  shows "keys = map (map_option (digits_value lib)) xs"
    and "\<forall>ds. Some ds \<in> set xs \<longrightarrow> digits_value lib ds \<le> int64_max"
proof -
  from assms have no: "\<not> (\<exists>x \<in> set xs. case x of None \<Rightarrow> False | Some ds \<Rightarrow> int64_max < digits_value lib ds)"
    by (auto simp: astype_Int64_def split: if_splits)
  from assms show "keys = map (map_option (digits_value lib)) xs"
    by (auto simp: astype_Int64_def split: if_splits)
  show "\<forall>ds. Some ds \<in> set xs \<longrightarrow> digits_value lib ds \<le> int64_max"
  proof (intro allI impI)
    fix ds assume "Some ds \<in> set xs"
    with no have "\<not> int64_max < digits_value lib ds" by force
    then show "digits_value lib ds \<le> int64_max" by simp
  qed
qed

lemma series_Inr:
  "series e cols rows name = Inr codes \<Longrightarrow>
     \<exists>p. positions name cols = [p] \<and> codes = map (\<lambda>r. cell_at r p) rows"
  by (auto simp: series_def split: list.splits)

lemma key_series_Inr:
  assumes "key_series lib cls cols rows name = Inr keys"
  shows "\<exists>p. positions name cols = [p] \<and>
           keys = map (\<lambda>r. map_option (digits_value lib) (str_extract lib cls (strip lib (astype_str lib (cell_at r p))))) rows \<and>
           (\<forall>r \<in> set rows. \<forall>ds. str_extract lib cls (strip lib (astype_str lib (cell_at r p))) = Some ds
                \<longrightarrow> digits_value lib ds \<le> int64_max)"
proof -
  from assms obtain codes where codes: "series AttributeError cols rows name = Inr codes"
    and cast: "astype_Int64 lib (map (\<lambda>c. str_extract lib cls (strip lib (astype_str lib c))) codes) = Inr keys"
    by (auto simp: key_series_def split: sum.splits)
  from series_Inr [OF codes] obtain p where p: "positions name cols = [p]"
    "codes = map (\<lambda>r. cell_at r p) rows" by blast
  from astype_Int64_values(1) [OF cast] p(2)
  have keys: "keys = map (\<lambda>r. map_option (digits_value lib) (str_extract lib cls (strip lib (astype_str lib (cell_at r p))))) rows"
    by (simp add: comp_def)
  have "\<forall>r \<in> set rows. \<forall>ds. str_extract lib cls (strip lib (astype_str lib (cell_at r p))) = Some ds
          \<longrightarrow> digits_value lib ds \<le> int64_max"
  proof (intro ballI allI impI)
    fix r ds assume r: "r \<in> set rows"
      and ds: "str_extract lib cls (strip lib (astype_str lib (cell_at r p))) = Some ds"
    from r p(2) ds have "Some ds \<in> set (map (\<lambda>c. str_extract lib cls (strip lib (astype_str lib c))) codes)"
      by (force simp: image_iff)
    with astype_Int64_values(2) [OF cast] show "digits_value lib ds \<le> int64_max" by blast
  qed
  with p(1) keys show ?thesis by blast
qed

lemma spec_code_match_extract:
  assumes "spec_code_match lib cls t"
  shows "str_extract lib cls t = Some (tl t)"
proof -
  from assms obtain c ds where t: "t = c # ds" "c \<in> set cls" "ds \<noteq> []" "\<forall>d \<in> set ds. is_digit lib d"
    by (auto simp: spec_code_match_def list_all_iff split: list.splits)
  from str_extract_anchored [OF t(2,3,4)] t(1) show ?thesis by simp
qed

lemma str_extract_leftmost:
  "str_extract lib cls s = Some ds \<Longrightarrow>
     \<exists>pre c rest. s = pre @ c # ds @ rest \<and> c \<in> set cls \<and>
        (rest = [] \<or> \<not> is_digit lib (hd rest)) \<and>
        (\<forall>j < length pre. \<not> (s ! j \<in> set cls \<and> is_digit lib (s ! Suc j)))"
proof (induction s)
  case Nil
  then show ?case by simp
next
  case (Cons c cs)
  show ?case
  proof (cases "c \<in> set cls \<and> takeWhile (is_digit lib) cs \<noteq> []")
    case True
    with Cons.prems have ds: "ds = takeWhile (is_digit lib) cs" by simp
    have split: "cs = ds @ dropWhile (is_digit lib) cs" by (simp add: ds)
    have stop: "dropWhile (is_digit lib) cs = [] \<or> \<not> is_digit lib (hd (dropWhile (is_digit lib) cs))"
      using hd_dropWhile [of "is_digit lib" cs] by blast
    have "c # cs = [] @ c # ds @ dropWhile (is_digit lib) cs" using split by simp
    moreover have "\<forall>j < length ([] :: nat list). \<not> ((c # cs) ! j \<in> set cls \<and> is_digit lib ((c # cs) ! Suc j))"
      by simp
    ultimately show ?thesis using True stop by blast
  next
    case False
    with Cons.prems have rec: "str_extract lib cls cs = Some ds" by auto
    from Cons.IH [OF rec] obtain pre c' rest where
      cs: "cs = pre @ c' # ds @ rest" and c': "c' \<in> set cls"
      and stop: "rest = [] \<or> \<not> is_digit lib (hd rest)"
      and none: "\<forall>j < length pre. \<not> (cs ! j \<in> set cls \<and> is_digit lib (cs ! Suc j))"
      by blast
    have head: "\<not> (c \<in> set cls \<and> is_digit lib (cs ! 0))"
    proof
      assume h: "c \<in> set cls \<and> is_digit lib (cs ! 0)"
      from cs have "cs \<noteq> []" by simp
      then obtain x xs where "cs = x # xs" by (cases cs) auto
      with h have "takeWhile (is_digit lib) cs \<noteq> []" by simp
      with h False show False by simp
    qed
    have "\<forall>j < length (c # pre). \<not> ((c # cs) ! j \<in> set cls \<and> is_digit lib ((c # cs) ! Suc j))"
    proof (intro allI impI)
      fix j assume j: "j < length (c # pre)"
      show "\<not> ((c # cs) ! j \<in> set cls \<and> is_digit lib ((c # cs) ! Suc j))"
      proof (cases j)
        case 0
        with head show ?thesis by simp
      next
        case (Suc j')
        with j have "j' < length pre" by simp
        with none have "\<not> (cs ! j' \<in> set cls \<and> is_digit lib (cs ! Suc j'))" by blast
        with Suc show ?thesis by simp
      qed
    qed
    moreover have "c # cs = (c # pre) @ c' # ds @ rest" using cs by simp
    ultimately show ?thesis using c' stop by blast
  qed
qed

lemma key_of_text_extract:
  assumes fits: "\<forall>ds. str_extract lib cls t = Some ds \<longrightarrow> digits_value lib ds \<le> int64_max"
  shows "key_of_text lib cls t (map_option (digits_value lib) (str_extract lib cls t))"
  unfolding key_of_text_def
proof (intro conjI allI impI)
  assume "spec_code_match lib cls t"
  then show "map_option (digits_value lib) (str_extract lib cls t) = Some (digits_value lib (tl t))"
    by (simp add: spec_code_match_extract)
next
  show "map_option (digits_value lib) (str_extract lib cls t) = None \<longleftrightarrow>
      \<not> (\<exists>j. Suc j < length t \<and> t ! j \<in> set cls \<and> is_digit lib (t ! Suc j))"
    using str_extract_None_iff [of lib cls t] by simp
next
  fix k assume "map_option (digits_value lib) (str_extract lib cls t) = Some k"
  then obtain ds where ds: "str_extract lib cls t = Some ds" "k = digits_value lib ds"
    by (cases "str_extract lib cls t") auto
  from str_extract_digits [OF ds(1)] have dig: "ds \<noteq> []" "\<forall>d \<in> set ds. is_digit lib d" by simp_all
  from str_extract_leftmost [OF ds(1)] obtain pre c rest where
    occ: "t = pre @ c # ds @ rest" "c \<in> set cls" "rest = [] \<or> \<not> is_digit lib (hd rest)"
      "\<forall>j < length pre. \<not> (t ! j \<in> set cls \<and> is_digit lib (t ! Suc j))" by blast
  from fits ds(1) have le: "digits_value lib ds \<le> int64_max" by blast
  from digits_value_nonneg [OF dig(2)] have "0 \<le> digits_value lib ds" .
  with occ dig ds(2) le
  show "\<exists>pre c ds rest. t = pre @ c # ds @ rest \<and> c \<in> set cls \<and> ds \<noteq> [] \<and>
            (\<forall>d \<in> set ds. is_digit lib d) \<and> (rest = [] \<or> \<not> is_digit lib (hd rest)) \<and>
            (\<forall>j < length pre. \<not> (t ! j \<in> set cls \<and> is_digit lib (t ! Suc j))) \<and>
            k = digits_value lib ds \<and> 0 \<le> k \<and> k \<le> int64_max" by blast
qed

lemma key_series_cells:
  assumes "key_series lib cls cols rows name = Inr keys"
  shows "\<exists>p. positions name cols = [p] \<and> length keys = length rows \<and>
           (\<forall>i < length rows.
              key_of_text lib cls (strip lib (astype_str lib (cell_at (rows ! i) p))) (keys ! i))"
proof -
  from key_series_Inr [OF assms] obtain p where p: "positions name cols = [p]"
    and keys: "keys = map (\<lambda>r. map_option (digits_value lib)
                 (str_extract lib cls (strip lib (astype_str lib (cell_at r p))))) rows"
    and fits: "\<forall>r \<in> set rows. \<forall>ds. str_extract lib cls (strip lib (astype_str lib (cell_at r p))) = Some ds
                \<longrightarrow> digits_value lib ds \<le> int64_max"
    by blast
  have "\<forall>i < length rows.
      key_of_text lib cls (strip lib (astype_str lib (cell_at (rows ! i) p))) (keys ! i)"
  proof (intro allI impI)
    fix i assume i: "i < length rows"
    then have "rows ! i \<in> set rows" by simp
    with fits have "\<forall>ds. str_extract lib cls (strip lib (astype_str lib (cell_at (rows ! i) p))) = Some ds
        \<longrightarrow> digits_value lib ds \<le> int64_max" by blast
    from key_of_text_extract [OF this] i
    show "key_of_text lib cls (strip lib (astype_str lib (cell_at (rows ! i) p))) (keys ! i)"
      by (simp add: keys)
  qed
  with p keys show ?thesis by simp
qed

section \<open>The dimension tables\<close>

lemma norm_customers_Inr:
  assumes "norm_customers lib df = Inr out"
  shows "\<exists>keys. key_series lib (ascii ''Cc'') (customer_columns lib df) (body df) (ascii ''customer_segmentid'') = Inr keys \<and>
           out = drop_dupes customer_segmentid
                   (dropna customer_segmentid (customer_rows (customer_columns lib df) keys (body df)))"
  using assms by (auto simp: norm_customers_def Let_def split: if_splits sum.splits)

lemma norm_products_Inr:
  assumes "norm_products lib df = Inr out"
  shows "\<exists>keys. key_series lib (ascii ''Pp'') (product_columns df) (body df) (ascii ''product_id'') = Inr keys \<and>
           out = drop_dupes product_id
                   (dropna product_id (product_rows (product_columns df) keys (body df)))"
  using assms by (auto simp: norm_products_def Let_def split: if_splits sum.splits)

lemma key_series_bounds:
  assumes "key_series lib cls cols rows name = Inr keys"
  shows "length keys = length rows" and "\<forall>k. Some k \<in> set keys \<longrightarrow> 0 \<le> k \<and> k \<le> int64_max"
proof -
  from key_series_Inr [OF assms] obtain p where
    keys: "keys = map (\<lambda>r. map_option (digits_value lib) (str_extract lib cls (strip lib (astype_str lib (cell_at r p))))) rows"
    and fits: "\<forall>r \<in> set rows. \<forall>ds. str_extract lib cls (strip lib (astype_str lib (cell_at r p))) = Some ds
                \<longrightarrow> digits_value lib ds \<le> int64_max"
    by blast
  show "length keys = length rows" by (simp add: keys)
  show "\<forall>k. Some k \<in> set keys \<longrightarrow> 0 \<le> k \<and> k \<le> int64_max"
  proof (intro allI impI)
    fix k assume "Some k \<in> set keys"
    then have "Some k \<in> (\<lambda>r. map_option (digits_value lib) (str_extract lib cls (strip lib (astype_str lib (cell_at r p))))) ` set rows"
      unfolding keys by simp
    then obtain r where r: "r \<in> set rows"
      "map_option (digits_value lib) (str_extract lib cls (strip lib (astype_str lib (cell_at r p)))) = Some k"
      by (elim imageE) simp
    then obtain ds where ds: "str_extract lib cls (strip lib (astype_str lib (cell_at r p))) = Some ds"
      "k = digits_value lib ds"
      by (cases "str_extract lib cls (strip lib (astype_str lib (cell_at r p)))") auto
    from str_extract_digits [OF ds(1)] have "0 \<le> digits_value lib ds"
      by (simp add: digits_value_nonneg)
    moreover from fits r(1) ds(1) have "digits_value lib ds \<le> int64_max" by blast
    ultimately show "0 \<le> k \<and> k \<le> int64_max" by (simp add: ds(2))
  qed
qed

lemma customer_rows_nth:
  "length keys = length rows \<Longrightarrow> i < length rows \<Longrightarrow>
     customer_segmentid (customer_rows cols keys rows ! i) = keys ! i \<and>
     customer_segment (customer_rows cols keys rows ! i) = cells_of cols (ascii ''customer_segment'') (rows ! i)"
  by (simp add: customer_rows_def)

lemma customer_rows_length:
  "length keys = length rows \<Longrightarrow> length (customer_rows cols keys rows) = length rows"
  by (simp add: customer_rows_def)

lemma product_rows_nth:
  "length keys = length rows \<Longrightarrow> i < length rows \<Longrightarrow>
     product_id (product_rows cols keys rows ! i) = keys ! i \<and>
     product_variant (product_rows cols keys rows ! i) = cells_of cols (ascii ''product_variant'') (rows ! i)"
  by (simp add: product_rows_def)

lemma product_rows_length:
  "length keys = length rows \<Longrightarrow> length (product_rows cols keys rows) = length rows"
  by (simp add: product_rows_def)

text \<open>What deduplication after \<open>dropna\<close> gives, for rows whose keys are the list \<open>keys\<close>.\<close>

lemma dimension_rows:
  fixes key :: "'a \<Rightarrow> int option"
  assumes len: "length rows = length keys"
    and nth: "\<forall>i < length keys. key (rows ! i) = keys ! i"
    and bounds: "\<forall>k. Some k \<in> set keys \<longrightarrow> 0 \<le> k \<and> k \<le> int64_max"
    and out: "out = drop_dupes key (dropna key rows)"
  shows "(\<forall>r \<in> set out. \<exists>k. key r = Some k \<and> 0 \<le> k \<and> k \<le> int64_max) \<and>
         distinct (map key out) \<and>
         (\<forall>r \<in> set out. \<exists>i < length keys. rows ! i = r \<and> (\<forall>j<i. keys ! j \<noteq> key r))"
proof (intro conjI ballI)
  fix r assume r: "r \<in> set out"
  from dedupe_first_occurrence [of r key rows] r out
  obtain i where some: "key r \<noteq> None" and i: "i < length rows" "rows ! i = r"
    and first: "\<forall>j<i. key (rows ! j) \<noteq> key r" by blast
  from i len nth have ki: "key r = keys ! i" by auto
  from some obtain k where k: "key r = Some k" by auto
  with ki i len have "Some k \<in> set keys" by (metis nth_mem)
  with bounds k show "\<exists>k. key r = Some k \<and> 0 \<le> k \<and> k \<le> int64_max" by blast
  have "\<forall>j<i. keys ! j \<noteq> key r"
  proof (intro allI impI)
    fix j assume j: "j < i"
    with first have "key (rows ! j) \<noteq> key r" by simp
    moreover from j i len nth have "key (rows ! j) = keys ! j" by simp
    ultimately show "keys ! j \<noteq> key r" by simp
  qed
  with i len show "\<exists>i < length keys. rows ! i = r \<and> (\<forall>j<i. keys ! j \<noteq> key r)" by auto
next
  show "distinct (map key out)" by (simp add: out dedupe_distinct)
qed

text \<open>
  Claim C4, as the code has it.  When a dimension normaliser returns a table, every key of
  the table is an integer extracted from the row's code, not negative (zero is possible) and
  within 64 bits; no two rows share a key; and every row of the table is the first input row
  that bears its key: it is the converted input row at some position \<open>i\<close>, and no converted row
  before \<open>i\<close> has the same key.
\<close>

theorem dimension_keys:
  "(norm_customers lib df = Inr cs \<longrightarrow>
      (\<exists>keys. key_series lib (ascii ''Cc'') (customer_columns lib df) (body df) (ascii ''customer_segmentid'') = Inr keys \<and>
         length keys = length (body df) \<and>
         (\<forall>r \<in> set cs. \<exists>k. customer_segmentid r = Some k \<and> 0 \<le> k \<and> k \<le> int64_max) \<and>
         distinct (map customer_segmentid cs) \<and>
         (\<forall>r \<in> set cs. \<exists>i < length keys.
            customer_rows (customer_columns lib df) keys (body df) ! i = r \<and>
            (\<forall>j<i. keys ! j \<noteq> customer_segmentid r)))) \<and>
   (norm_products lib df = Inr ps \<longrightarrow>
      (\<exists>keys. key_series lib (ascii ''Pp'') (product_columns df) (body df) (ascii ''product_id'') = Inr keys \<and>
         length keys = length (body df) \<and>
         (\<forall>r \<in> set ps. \<exists>k. product_id r = Some k \<and> 0 \<le> k \<and> k \<le> int64_max) \<and>
         distinct (map product_id ps) \<and>
         (\<forall>r \<in> set ps. \<exists>i < length keys.
            product_rows (product_columns df) keys (body df) ! i = r \<and>
            (\<forall>j<i. keys ! j \<noteq> product_id r))))"
proof (intro conjI impI)
  assume "norm_customers lib df = Inr cs"
  from norm_customers_Inr [OF this] obtain keys where
    ks: "key_series lib (ascii ''Cc'') (customer_columns lib df) (body df) (ascii ''customer_segmentid'') = Inr keys"
    and out: "cs = drop_dupes customer_segmentid
                (dropna customer_segmentid (customer_rows (customer_columns lib df) keys (body df)))"
    by blast
  note len = key_series_bounds(1) [OF ks] and bounds = key_series_bounds(2) [OF ks]
  have l: "length (customer_rows (customer_columns lib df) keys (body df)) = length keys"
    using len by (simp add: customer_rows_length)
  have n: "\<forall>i < length keys.
      customer_segmentid (customer_rows (customer_columns lib df) keys (body df) ! i) = keys ! i"
    using len by (simp add: customer_rows_nth)
  from dimension_rows [OF l n bounds out] ks len
  show "\<exists>keys. key_series lib (ascii ''Cc'') (customer_columns lib df) (body df) (ascii ''customer_segmentid'') = Inr keys \<and>
         length keys = length (body df) \<and>
         (\<forall>r \<in> set cs. \<exists>k. customer_segmentid r = Some k \<and> 0 \<le> k \<and> k \<le> int64_max) \<and>
         distinct (map customer_segmentid cs) \<and>
         (\<forall>r \<in> set cs. \<exists>i < length keys.
            customer_rows (customer_columns lib df) keys (body df) ! i = r \<and>
            (\<forall>j<i. keys ! j \<noteq> customer_segmentid r))"
    by blast
next
  assume "norm_products lib df = Inr ps"
  from norm_products_Inr [OF this] obtain keys where
    ks: "key_series lib (ascii ''Pp'') (product_columns df) (body df) (ascii ''product_id'') = Inr keys"
    and out: "ps = drop_dupes product_id
                (dropna product_id (product_rows (product_columns df) keys (body df)))"
    by blast
  note len = key_series_bounds(1) [OF ks] and bounds = key_series_bounds(2) [OF ks]
  have l: "length (product_rows (product_columns df) keys (body df)) = length keys"
    using len by (simp add: product_rows_length)
  have n: "\<forall>i < length keys.
      product_id (product_rows (product_columns df) keys (body df) ! i) = keys ! i"
    using len by (simp add: product_rows_nth)
  from dimension_rows [OF l n bounds out] ks len
  show "\<exists>keys. key_series lib (ascii ''Pp'') (product_columns df) (body df) (ascii ''product_id'') = Inr keys \<and>
         length keys = length (body df) \<and>
         (\<forall>r \<in> set ps. \<exists>k. product_id r = Some k \<and> 0 \<le> k \<and> k \<le> int64_max) \<and>
         distinct (map product_id ps) \<and>
         (\<forall>r \<in> set ps. \<exists>i < length keys.
            product_rows (product_columns df) keys (body df) ! i = r \<and>
            (\<forall>j<i. keys ! j \<noteq> product_id r))"
    by blast
qed

lemma customer_rows_kept:
  assumes len: "length keys = length rows"
  shows "drop_dupes customer_segmentid (dropna customer_segmentid (customer_rows cols keys rows)) =
     map (\<lambda>i. \<lparr>customer_segmentid = keys ! i,
                 customer_segment = cells_of cols (ascii ''customer_segment'') (rows ! i)\<rparr>)
       (filter (\<lambda>i. keys ! i \<noteq> None \<and> (\<forall>j<i. keys ! j \<noteq> keys ! i)) [0..<length rows])"
proof -
  let ?crows = "customer_rows cols keys rows"
  have l: "length ?crows = length rows" using len by (rule customer_rows_length)
  have row: "\<And>i. i < length rows \<Longrightarrow>
      ?crows ! i = \<lparr>customer_segmentid = keys ! i,
                    customer_segment = cells_of cols (ascii ''customer_segment'') (rows ! i)\<rparr>"
    using len by (simp add: customer_rows_def)
  have f: "filter (\<lambda>i. customer_segmentid (?crows ! i) \<noteq> None \<and>
                 (\<forall>j<i. customer_segmentid (?crows ! j) \<noteq> customer_segmentid (?crows ! i)))
             [0..<length rows] =
           filter (\<lambda>i. keys ! i \<noteq> None \<and> (\<forall>j<i. keys ! j \<noteq> keys ! i)) [0..<length rows]"
    by (rule filter_cong) (simp_all add: row)
  have "drop_dupes customer_segmentid (dropna customer_segmentid ?crows) =
      map (\<lambda>i. ?crows ! i)
        (filter (\<lambda>i. customer_segmentid (?crows ! i) \<noteq> None \<and>
                 (\<forall>j<i. customer_segmentid (?crows ! j) \<noteq> customer_segmentid (?crows ! i)))
           [0..<length ?crows])"
    by (rule dedupe_positions)
  also have "\<dots> = map (\<lambda>i. ?crows ! i)
        (filter (\<lambda>i. keys ! i \<noteq> None \<and> (\<forall>j<i. keys ! j \<noteq> keys ! i)) [0..<length rows])"
    by (simp only: l f)
  also have "\<dots> = map (\<lambda>i. \<lparr>customer_segmentid = keys ! i,
                 customer_segment = cells_of cols (ascii ''customer_segment'') (rows ! i)\<rparr>)
        (filter (\<lambda>i. keys ! i \<noteq> None \<and> (\<forall>j<i. keys ! j \<noteq> keys ! i)) [0..<length rows])"
    by (rule map_cong) (simp_all add: row)
  finally show ?thesis .
qed

lemma product_rows_kept:
  assumes len: "length keys = length rows"
  shows "drop_dupes product_id (dropna product_id (product_rows cols keys rows)) =
     map (\<lambda>i. \<lparr>product_id = keys ! i,
                 product_variant = cells_of cols (ascii ''product_variant'') (rows ! i)\<rparr>)
       (filter (\<lambda>i. keys ! i \<noteq> None \<and> (\<forall>j<i. keys ! j \<noteq> keys ! i)) [0..<length rows])"
proof -
  let ?prows = "product_rows cols keys rows"
  have l: "length ?prows = length rows" using len by (rule product_rows_length)
  have row: "\<And>i. i < length rows \<Longrightarrow>
      ?prows ! i = \<lparr>product_id = keys ! i,
                    product_variant = cells_of cols (ascii ''product_variant'') (rows ! i)\<rparr>"
    using len by (simp add: product_rows_def)
  have f: "filter (\<lambda>i. product_id (?prows ! i) \<noteq> None \<and>
                 (\<forall>j<i. product_id (?prows ! j) \<noteq> product_id (?prows ! i)))
             [0..<length rows] =
           filter (\<lambda>i. keys ! i \<noteq> None \<and> (\<forall>j<i. keys ! j \<noteq> keys ! i)) [0..<length rows]"
    by (rule filter_cong) (simp_all add: row)
  have "drop_dupes product_id (dropna product_id ?prows) =
      map (\<lambda>i. ?prows ! i)
        (filter (\<lambda>i. product_id (?prows ! i) \<noteq> None \<and>
                 (\<forall>j<i. product_id (?prows ! j) \<noteq> product_id (?prows ! i)))
           [0..<length ?prows])"
    by (rule dedupe_positions)
  also have "\<dots> = map (\<lambda>i. ?prows ! i)
        (filter (\<lambda>i. keys ! i \<noteq> None \<and> (\<forall>j<i. keys ! j \<noteq> keys ! i)) [0..<length rows])"
    by (simp only: l f)
  also have "\<dots> = map (\<lambda>i. \<lparr>product_id = keys ! i,
                 product_variant = cells_of cols (ascii ''product_variant'') (rows ! i)\<rparr>)
        (filter (\<lambda>i. keys ! i \<noteq> None \<and> (\<forall>j<i. keys ! j \<noteq> keys ! i)) [0..<length rows])"
    by (rule map_cong) (simp_all add: row)
  finally show ?thesis .
qed

text \<open>
  Claim C2, as the code has it.  When \<open>norm_customers\<close> (\<open>norm_products\<close>) returns a table, the
  code column is one column \<open>p\<close> of the frame, and every input row \<open>i\<close> has a key \<open>keys ! i\<close>
  that \<open>key_of_text\<close> reads off the trimmed text \<open>t\<close> of its cell in that column:
  \<^item> if \<open>t\<close> is a letter of the class followed by digits only, the key is the integer
    value of those digits;
  \<^item> the key is missing exactly when no letter of the class is directly followed by a digit
    anywhere in \<open>t\<close>: the pattern is searched, not matched against the whole of \<open>t\<close>;
  \<^item> a key that is present is the value of the longest run of digits after the leftmost
    such letter, is not negative and fits 64 bits.
  The table returned is exactly the rows \<open>i\<close> whose key is present and is not the key of an
  earlier row, in input order, each with its key as an integer.  So a row without a key is
  absent from the table, and a row with a key is absent only when an earlier row has the
  same key.  Digits and white space are those of the library, whatever they are.
\<close>

theorem key_extractor_searches:
  "(norm_customers lib df = Inr cs \<longrightarrow>
      (\<exists>p keys. positions (ascii ''customer_segmentid'') (customer_columns lib df) = [p] \<and>
         length keys = length (body df) \<and>
         (\<forall>i < length (body df).
            key_of_text lib (ascii ''Cc'')
              (strip lib (astype_str lib (cell_at (body df ! i) p))) (keys ! i)) \<and>
         cs = map (\<lambda>i. \<lparr>customer_segmentid = keys ! i,
                         customer_segment = cells_of (customer_columns lib df)
                                              (ascii ''customer_segment'') (body df ! i)\<rparr>)
                (filter (\<lambda>i. keys ! i \<noteq> None \<and> (\<forall>j<i. keys ! j \<noteq> keys ! i))
                   [0..<length (body df)]))) \<and>
   (norm_products lib df = Inr ps \<longrightarrow>
      (\<exists>p keys. positions (ascii ''product_id'') (product_columns df) = [p] \<and>
         length keys = length (body df) \<and>
         (\<forall>i < length (body df).
            key_of_text lib (ascii ''Pp'')
              (strip lib (astype_str lib (cell_at (body df ! i) p))) (keys ! i)) \<and>
         ps = map (\<lambda>i. \<lparr>product_id = keys ! i,
                         product_variant = cells_of (product_columns df)
                                             (ascii ''product_variant'') (body df ! i)\<rparr>)
                (filter (\<lambda>i. keys ! i \<noteq> None \<and> (\<forall>j<i. keys ! j \<noteq> keys ! i))
                   [0..<length (body df)])))"
proof (intro conjI impI)
  assume "norm_customers lib df = Inr cs"
  from norm_customers_Inr [OF this] obtain keys where
    ks: "key_series lib (ascii ''Cc'') (customer_columns lib df) (body df) (ascii ''customer_segmentid'') = Inr keys"
    and out: "cs = drop_dupes customer_segmentid
                (dropna customer_segmentid (customer_rows (customer_columns lib df) keys (body df)))"
    by blast
  from key_series_cells [OF ks] obtain p where
    p: "positions (ascii ''customer_segmentid'') (customer_columns lib df) = [p]"
    and len: "length keys = length (body df)"
    and cells: "\<forall>i < length (body df).
            key_of_text lib (ascii ''Cc'')
              (strip lib (astype_str lib (cell_at (body df ! i) p))) (keys ! i)"
    by blast
  from out customer_rows_kept [OF len]
  have "cs = map (\<lambda>i. \<lparr>customer_segmentid = keys ! i,
                         customer_segment = cells_of (customer_columns lib df)
                                              (ascii ''customer_segment'') (body df ! i)\<rparr>)
                (filter (\<lambda>i. keys ! i \<noteq> None \<and> (\<forall>j<i. keys ! j \<noteq> keys ! i))
                   [0..<length (body df)])"
    by simp
  with p len cells
  show "\<exists>p keys. positions (ascii ''customer_segmentid'') (customer_columns lib df) = [p] \<and>
         length keys = length (body df) \<and>
         (\<forall>i < length (body df).
            key_of_text lib (ascii ''Cc'')
              (strip lib (astype_str lib (cell_at (body df ! i) p))) (keys ! i)) \<and>
         cs = map (\<lambda>i. \<lparr>customer_segmentid = keys ! i,
                         customer_segment = cells_of (customer_columns lib df)
                                              (ascii ''customer_segment'') (body df ! i)\<rparr>)
                (filter (\<lambda>i. keys ! i \<noteq> None \<and> (\<forall>j<i. keys ! j \<noteq> keys ! i))
                   [0..<length (body df)])"
    by blast
next
  assume "norm_products lib df = Inr ps"
  from norm_products_Inr [OF this] obtain keys where
    ks: "key_series lib (ascii ''Pp'') (product_columns df) (body df) (ascii ''product_id'') = Inr keys"
    and out: "ps = drop_dupes product_id
                (dropna product_id (product_rows (product_columns df) keys (body df)))"
    by blast
  from key_series_cells [OF ks] obtain p where
    p: "positions (ascii ''product_id'') (product_columns df) = [p]"
    and len: "length keys = length (body df)"
    and cells: "\<forall>i < length (body df).
            key_of_text lib (ascii ''Pp'')
              (strip lib (astype_str lib (cell_at (body df ! i) p))) (keys ! i)"
    by blast
  from out product_rows_kept [OF len]
  have "ps = map (\<lambda>i. \<lparr>product_id = keys ! i,
                         product_variant = cells_of (product_columns df)
                                             (ascii ''product_variant'') (body df ! i)\<rparr>)
                (filter (\<lambda>i. keys ! i \<noteq> None \<and> (\<forall>j<i. keys ! j \<noteq> keys ! i))
                   [0..<length (body df)])"
    by simp
  with p len cells
  show "\<exists>p keys. positions (ascii ''product_id'') (product_columns df) = [p] \<and>
         length keys = length (body df) \<and>
         (\<forall>i < length (body df).
            key_of_text lib (ascii ''Pp'')
              (strip lib (astype_str lib (cell_at (body df ! i) p))) (keys ! i)) \<and>
         ps = map (\<lambda>i. \<lparr>product_id = keys ! i,
                         product_variant = cells_of (product_columns df)
                                             (ascii ''product_variant'') (body df ! i)\<rparr>)
                (filter (\<lambda>i. keys ! i \<noteq> None \<and> (\<forall>j<i. keys ! j \<noteq> keys ! i))
                   [0..<length (body df)])"
    by blast
qed

text \<open>The definitions that evaluate the normalisers on a given frame.\<close>

lemmas text_eval = ascii_def strip_def is_digit_def digit_value_def digits_value_def
  ascii_library_def astype_str_def int64_max_def astype_Int64_def normalize_header_def
  rename_columns_def missing_columns_def positions_def series_def cells_of_def cell_at_def
  key_series_def spec_code_match_def

lemmas dimension_eval = drop_dupes_def dropna_def customer_renames_def product_renames_def
  customer_columns_def product_columns_def customer_rows_def product_rows_def
  norm_customers_def norm_products_def Let_def

text \<open>
  A frame of four rows under the ASCII library: \<open>" c12 "\<close> gives the key 12, \<open>"XC5y"\<close> the key 5,
  \<open>"X9"\<close> has no key, and \<open>"C12"\<close> repeats the key of the first row.
\<close>

theorem key_extractor_searches_witness:
  "norm_customers ascii_library
     \<lparr>columns = [ascii ''CustomerSegmentID'', ascii ''CustomerSegment''],
      body = [[Txt (ascii '' c12 ''), Txt (ascii ''a'')], [Txt (ascii ''XC5y''), Txt (ascii ''b'')],
              [Txt (ascii ''X9''), Txt (ascii ''c'')], [Txt (ascii ''C12''), Txt (ascii ''d'')]]\<rparr>
   = Inr [\<lparr>customer_segmentid = Some 12, customer_segment = [Txt (ascii ''a'')]\<rparr>,
          \<lparr>customer_segmentid = Some 5, customer_segment = [Txt (ascii ''b'')]\<rparr>] \<and>
   (\<exists>p keys.
      positions (ascii ''customer_segmentid'')
        (customer_columns ascii_library
           \<lparr>columns = [ascii ''CustomerSegmentID'', ascii ''CustomerSegment''],
            body = [[Txt (ascii '' c12 ''), Txt (ascii ''a'')], [Txt (ascii ''XC5y''), Txt (ascii ''b'')],
                    [Txt (ascii ''X9''), Txt (ascii ''c'')], [Txt (ascii ''C12''), Txt (ascii ''d'')]]\<rparr>)
        = [p] \<and> length (keys :: int option list) = 4)"
proof -
  define df :: "int frame" where
    "df = \<lparr>columns = [ascii ''CustomerSegmentID'', ascii ''CustomerSegment''],
      body = [[Txt (ascii '' c12 ''), Txt (ascii ''a'')], [Txt (ascii ''XC5y''), Txt (ascii ''b'')],
              [Txt (ascii ''X9''), Txt (ascii ''c'')], [Txt (ascii ''C12''), Txt (ascii ''d'')]]\<rparr>"
  define cs :: "int customer list" where
    "cs = [\<lparr>customer_segmentid = Some 12, customer_segment = [Txt (ascii ''a'')]\<rparr>,
          \<lparr>customer_segmentid = Some 5, customer_segment = [Txt (ascii ''b'')]\<rparr>]"
  have run: "norm_customers ascii_library df = Inr cs"
    by (simp add: df_def cs_def text_eval dimension_eval)
  have n: "length (body df) = 4" by (simp add: df_def)
  from key_extractor_searches [of ascii_library df cs, THEN conjunct1, THEN mp, OF run]
  obtain p and keys :: "int option list" where
    "positions (ascii ''customer_segmentid'') (customer_columns ascii_library df) = [p]"
    "length keys = length (body df)"
    by blast
  with n have "\<exists>p keys. positions (ascii ''customer_segmentid'') (customer_columns ascii_library df) = [p] \<and>
      length (keys :: int option list) = 4" by auto
  with run show ?thesis unfolding df_def cs_def by (rule conjI)
qed

text \<open>
  The claim as the specification words it fails: \<open>"XC5y"\<close> is not a letter followed by digits
  only, yet its row is in the output, with the key 5.
\<close>

theorem key_extractor_unanchored_counterexample:
  "\<not> spec_code_match ascii_library (ascii ''Cc'') (strip ascii_library (ascii ''XC5y'')) \<and>
   norm_customers ascii_library
     \<lparr>columns = [ascii ''customersegmentid'', ascii ''customersegment''],
      body = [[Txt (ascii ''XC5y''), Txt (ascii ''odd'')]]\<rparr>
   = Inr [\<lparr>customer_segmentid = Some 5, customer_segment = [Txt (ascii ''odd'')]\<rparr>]"
  by (simp add: text_eval dimension_eval)

text \<open>A frame with a repeated key and a row without a key.\<close>

theorem dimension_keys_witness:
  "norm_customers ascii_library
     \<lparr>columns = [ascii ''CustomerSegmentID'', ascii ''CustomerSegment''],
      body = [[Txt (ascii ''c1''), Txt (ascii ''Budget'')], [Txt (ascii ''C1''), Txt (ascii ''Budget-dup'')],
              [Txt (ascii ''C2''), Txt (ascii ''Premium'')], [Txt (ascii ''X9''), Txt (ascii ''bad'')]]\<rparr>
   = Inr [\<lparr>customer_segmentid = Some 1, customer_segment = [Txt (ascii ''Budget'')]\<rparr>,
          \<lparr>customer_segmentid = Some 2, customer_segment = [Txt (ascii ''Premium'')]\<rparr>] \<and>
   distinct (map customer_segmentid
      [\<lparr>customer_segmentid = Some 1, customer_segment = [Txt (ascii ''Budget'') :: int cell]\<rparr>,
       \<lparr>customer_segmentid = Some 2, customer_segment = [Txt (ascii ''Premium'')]\<rparr>])"
proof -
  define df :: "int frame" where
    "df = \<lparr>columns = [ascii ''CustomerSegmentID'', ascii ''CustomerSegment''],
      body = [[Txt (ascii ''c1''), Txt (ascii ''Budget'')], [Txt (ascii ''C1''), Txt (ascii ''Budget-dup'')],
              [Txt (ascii ''C2''), Txt (ascii ''Premium'')], [Txt (ascii ''X9''), Txt (ascii ''bad'')]]\<rparr>"
  define cs :: "int customer list" where
    "cs = [\<lparr>customer_segmentid = Some 1, customer_segment = [Txt (ascii ''Budget'')]\<rparr>,
       \<lparr>customer_segmentid = Some 2, customer_segment = [Txt (ascii ''Premium'')]\<rparr>]"
  have run: "norm_customers ascii_library df = Inr cs"
    by (simp add: df_def cs_def text_eval dimension_eval)
  from dimension_keys [of ascii_library df cs] run
  have "distinct (map customer_segmentid cs)" by blast
  with run show ?thesis unfolding df_def cs_def by (rule conjI)
qed

text \<open>
  The claim as the specification words it fails: \<open>"C0"\<close> is a letter followed by digits, and its
  key is zero, which is not positive.
\<close>

theorem dimension_key_zero_counterexample:
  "spec_code_match ascii_library (ascii ''Cc'') (strip ascii_library (ascii ''C0'')) \<and>
   norm_customers ascii_library
     \<lparr>columns = [ascii ''customersegmentid'', ascii ''customersegment''],
      body = [[Txt (ascii ''C0''), Txt (ascii ''zero'')]]\<rparr>
   = Inr [\<lparr>customer_segmentid = Some 0, customer_segment = [Txt (ascii ''zero'')]\<rparr>]"
  by (simp add: text_eval dimension_eval)

section \<open>The calendar\<close>

lemma valid_date_calendar: "valid_date dt \<Longrightarrow> calendar_date dt"
  by (simp add: valid_date_def calendar_date_def)

lemma days_in_month_bounds: "28 \<le> days_in_month y m \<and> days_in_month y m \<le> 31"
  by (simp add: days_in_month_def)

lemma days_before_month_Suc:
  "1 \<le> m \<Longrightarrow> days_before_month y (Suc m) = days_before_month y m + int (days_in_month y m)"
  by (simp add: days_before_month_def)

lemma months_upt: "[Suc 0..<13] = [1, 2, 3, 4, 5, 6, 7, 8, 9, 10, 11, 12 :: nat]"
  by code_simp

lemma days_before_month_13:
  "days_before_month y 13 = (if is_leap y then 366 else 365)"
  by (simp add: days_before_month_def months_upt days_in_month_def)

lemma days_before_month_mono:
  "m \<le> m' \<Longrightarrow> days_before_month y m \<le> days_before_month y m'"
proof (induction m' rule: nat_induct_at_least)
  case base
  show ?case by simp
next
  case (Suc n)
  show ?case
  proof (cases "1 \<le> n")
    case True
    with Suc days_before_month_Suc [of n y] show ?thesis by simp
  next
    case False
    then have "n = 0" by simp
    with Suc have "m = 0" by simp
    then show ?thesis by (simp add: days_before_month_def)
  qed
qed

lemma div_pred_step:
  fixes n k :: int
  assumes "0 < k"
  shows "n div k = (n - 1) div k + (if n mod k = 0 then 1 else 0)"
proof (cases "n mod k = 0")
  case True
  then obtain q where q: "n = k * q" by (metis mod_eq_0_iff_dvd dvdE)
  have eq: "n - 1 = k * (q - 1) + (k - 1)" by (simp add: q algebra_simps)
  have "(k * (q - 1) + (k - 1)) div k = q - 1"
    using assms by (simp add: div_pos_pos_trivial)
  then have "(n - 1) div k = q - 1" by (simp only: eq)
  moreover have "n div k = q" using assms q by simp
  ultimately show ?thesis using True by simp
next
  case False
  define r where "r = n mod k"
  define q where "q = n div k"
  have n: "n = k * q + r" by (simp add: q_def r_def)
  have "0 \<le> r" "r < k" using assms by (simp_all add: r_def)
  moreover have "r \<noteq> 0" using False by (simp add: r_def)
  ultimately have r: "0 < r" "r < k" by simp_all
  have eq: "n - 1 = k * q + (r - 1)" by (simp add: n)
  have "(k * q + (r - 1)) div k = q"
    using assms r by (simp add: div_pos_pos_trivial)
  then have "(n - 1) div k = q" by (simp only: eq)
  then show ?thesis using False by (simp add: q_def)
qed

lemma is_leap_int:
  "is_leap y \<longleftrightarrow> (int y mod 4 = 0 \<and> (int y mod 100 \<noteq> 0 \<or> int y mod 400 = 0))"
proof -
  have "int y mod 4 = int (y mod 4)" "int y mod 100 = int (y mod 100)"
       "int y mod 400 = int (y mod 400)"
    by (simp_all add: zmod_int)
  then show ?thesis by (simp add: is_leap_def)
qed

lemma century_divisibility:
  fixes n :: int
  shows "n mod 100 = 0 \<Longrightarrow> n mod 4 = 0" and "n mod 400 = 0 \<Longrightarrow> n mod 100 = 0"
proof -
  have a: "(4::int) dvd 100" and b: "(100::int) dvd 400" by simp_all
  show "n mod 100 = 0 \<Longrightarrow> n mod 4 = 0"
    using a by (meson dvd_trans mod_eq_0_iff_dvd)
  show "n mod 400 = 0 \<Longrightarrow> n mod 100 = 0"
    using b by (meson dvd_trans mod_eq_0_iff_dvd)
qed

lemma days_before_year_Suc:
  "days_before_year (Suc y) = days_before_year y + (if is_leap y then 366 else 365)"
proof -
  define n where "n = int y"
  define c4 :: int where "c4 = (if n mod 4 = 0 then 1 else 0)"
  define c100 :: int where "c100 = (if n mod 100 = 0 then 1 else 0)"
  define c400 :: int where "c400 = (if n mod 400 = 0 then 1 else 0)"
  have four: "n div 4 = (n - 1) div 4 + c4"
    unfolding c4_def by (rule div_pred_step) simp
  have hundred: "n div 100 = (n - 1) div 100 + c100"
    unfolding c100_def by (rule div_pred_step) simp
  have fourh: "n div 400 = (n - 1) div 400 + c400"
    unfolding c400_def by (rule div_pred_step) simp
  have succ: "days_before_year (Suc y) = 365 * n + n div 4 - n div 100 + n div 400"
    by (simp add: days_before_year_def n_def)
  have this_year: "days_before_year y = 365 * (n - 1) + (n - 1) div 4 - (n - 1) div 100 + (n - 1) div 400"
    by (simp add: days_before_year_def n_def)
  have step: "days_before_year (Suc y) = days_before_year y + 365 + c4 - c100 + c400"
    unfolding succ this_year four hundred fourh by (simp add: algebra_simps)
  have leap: "is_leap y \<longleftrightarrow> (n mod 4 = 0 \<and> (n mod 100 \<noteq> 0 \<or> n mod 400 = 0))"
    unfolding n_def by (rule is_leap_int)
  have corr: "c4 - c100 + c400 = (if is_leap y then 1 else 0)"
  proof (cases "n mod 4 = 0")
    case False
    have h: "n mod 100 \<noteq> 0"
    proof
      assume "n mod 100 = 0"
      then have "n mod 4 = 0" by (rule century_divisibility(1))
      with False show False ..
    qed
    have "n mod 400 \<noteq> 0"
    proof
      assume "n mod 400 = 0"
      then have "n mod 100 = 0" by (rule century_divisibility(2))
      with h show False ..
    qed
    with False h show ?thesis by (simp add: c4_def c100_def c400_def leap)
  next
    case m4: True
    show ?thesis
    proof (cases "n mod 100 = 0")
      case False
      have "n mod 400 \<noteq> 0"
      proof
        assume "n mod 400 = 0"
        then have "n mod 100 = 0" by (rule century_divisibility(2))
        with False show False ..
      qed
      with m4 False show ?thesis by (simp add: c4_def c100_def c400_def leap)
    next
      case True
      with m4 show ?thesis by (simp add: c4_def c100_def c400_def leap)
    qed
  qed
  from step corr show ?thesis by (cases "is_leap y") simp_all
qed

lemma days_before_year_Suc_12:
  "days_before_year (Suc y) = days_before_year y + days_before_month y 12 + 31"
proof -
  have "days_before_month y 13 = days_before_month y 12 + int (days_in_month y 12)"
    using days_before_month_Suc [of 12 y] by simp
  then have "days_before_month y 12 + 31 = (if is_leap y then 366 else 365)"
    by (simp add: days_before_month_13 days_in_month_def)
  then show ?thesis by (simp add: days_before_year_Suc)
qed

lemma toordinal_next_day:
  assumes "calendar_date dt"
  shows "toordinal (next_day dt) = toordinal dt + 1"
proof (cases "day_of dt < days_in_month (year_of dt) (month_of dt)")
  case True
  then show ?thesis by (simp add: next_day_def toordinal_def)
next
  case last: False
  with assms have d: "day_of dt = days_in_month (year_of dt) (month_of dt)"
    by (simp add: calendar_date_def)
  show ?thesis
  proof (cases "month_of dt < 12")
    case True
    from assms have "1 \<le> month_of dt" by (simp add: calendar_date_def)
    from days_before_month_Suc [OF this, of "year_of dt"] last True d
    show ?thesis by (simp add: next_day_def toordinal_def)
  next
    case False
    with assms have m: "month_of dt = 12" by (simp add: calendar_date_def)
    have "days_before_month (Suc (year_of dt)) 1 = 0" by (simp add: days_before_month_def)
    with last False m d days_before_year_Suc_12 [of "year_of dt"]
    show ?thesis by (simp add: next_day_def toordinal_def days_in_month_def)
  qed
qed

lemma calendar_next_day:
  assumes "calendar_date dt"
  shows "calendar_date (next_day dt)"
proof (cases "day_of dt < days_in_month (year_of dt) (month_of dt)")
  case True
  with assms show ?thesis by (simp add: next_day_def calendar_date_def)
next
  case last: False
  show ?thesis
  proof (cases "month_of dt < 12")
    case True
    with last assms show ?thesis
      by (simp add: next_day_def calendar_date_def days_in_month_def)
  next
    case False
    with last assms show ?thesis
      by (simp add: next_day_def calendar_date_def days_in_month_def)
  qed
qed

lemma plus_days_Suc: "plus_days dt (Suc k) = next_day (plus_days dt k)"
  by (simp add: plus_days_def)

lemma plus_days_0: "plus_days dt 0 = dt"
  by (simp add: plus_days_def)

lemma calendar_plus_days: "calendar_date dt \<Longrightarrow> calendar_date (plus_days dt k)"
  by (induction k) (simp_all add: plus_days_0 plus_days_Suc calendar_next_day)

lemma toordinal_plus_days:
  "calendar_date dt \<Longrightarrow> toordinal (plus_days dt k) = toordinal dt + int k"
  by (induction k) (simp_all add: plus_days_0 plus_days_Suc toordinal_next_day calendar_plus_days)

lemma date_key_next_day:
  assumes "calendar_date dt"
  shows "year_of dt * 10000 + month_of dt * 100 + day_of dt
       < year_of (next_day dt) * 10000 + month_of (next_day dt) * 100 + day_of (next_day dt)"
proof -
  from assms days_in_month_bounds [of "year_of dt" "month_of dt"]
  have "day_of dt \<le> 31" "month_of dt \<le> 12" by (simp_all add: calendar_date_def)
  then show ?thesis by (simp add: next_day_def)
qed

lemma days_before_year_mono: "y \<le> y' \<Longrightarrow> days_before_year y \<le> days_before_year y'"
proof (induction y' rule: nat_induct_at_least)
  case base
  show ?case by simp
next
  case (Suc n)
  have "days_before_year n \<le> days_before_year (Suc n)"
    by (simp add: days_before_year_Suc)
  with Suc show ?case by simp
qed

lemma day_in_year:
  assumes "calendar_date dt"
  shows "days_before_month (year_of dt) (month_of dt) + int (day_of dt)
         \<le> days_before_month (year_of dt) (Suc (month_of dt))"
proof -
  from assms have "1 \<le> month_of dt" "day_of dt \<le> days_in_month (year_of dt) (month_of dt)"
    by (simp_all add: calendar_date_def)
  with days_before_month_Suc [of "month_of dt" "year_of dt"] show ?thesis by simp
qed

lemma toordinal_year_bounds:
  assumes "calendar_date dt"
  shows "days_before_year (year_of dt) < toordinal dt"
    and "toordinal dt \<le> days_before_year (Suc (year_of dt))"
proof -
  from assms have d: "1 \<le> day_of dt" and m: "month_of dt \<le> 12"
    by (simp_all add: calendar_date_def)
  have "0 \<le> days_before_month (year_of dt) (month_of dt)"
    by (simp add: days_before_month_def)
  with d show "days_before_year (year_of dt) < toordinal dt"
    by (simp add: toordinal_def)
  from m have "days_before_month (year_of dt) (Suc (month_of dt))
      \<le> days_before_month (year_of dt) 13"
    by (intro days_before_month_mono) simp
  with day_in_year [OF assms]
  have "days_before_month (year_of dt) (month_of dt) + int (day_of dt)
      \<le> (if is_leap (year_of dt) then 366 else 365)"
    by (simp add: days_before_month_13)
  then show "toordinal dt \<le> days_before_year (Suc (year_of dt))"
    by (simp add: toordinal_def days_before_year_Suc)
qed

text \<open>The number of the day grows with the date.\<close>

lemma toordinal_less:
  assumes a: "calendar_date a" and b: "calendar_date b" and lt: "\<not> date_le b a"
  shows "toordinal a < toordinal b"
proof -
  from lt have "year_of a < year_of b \<or> (year_of a = year_of b \<and> month_of a < month_of b) \<or>
      (year_of a = year_of b \<and> month_of a = month_of b \<and> day_of a < day_of b)"
    unfolding date_le_def by arith
  then consider (year) "year_of a < year_of b"
    | (month) "year_of a = year_of b" "month_of a < month_of b"
    | (day) "year_of a = year_of b" "month_of a = month_of b" "day_of a < day_of b"
    by blast
  then show ?thesis
  proof cases
    case year
    then have "days_before_year (Suc (year_of a)) \<le> days_before_year (year_of b)"
      by (intro days_before_year_mono) simp
    with toordinal_year_bounds(2) [OF a] toordinal_year_bounds(1) [OF b]
    show ?thesis by simp
  next
    case month
    then have "days_before_month (year_of b) (Suc (month_of a))
        \<le> days_before_month (year_of b) (month_of b)"
      by (intro days_before_month_mono) simp
    moreover from b have "1 \<le> day_of b" by (simp add: calendar_date_def)
    ultimately show ?thesis
      using day_in_year [OF a] month by (simp add: toordinal_def)
  next
    case day
    then show ?thesis by (simp add: toordinal_def)
  qed
qed

lemma toordinal_le:
  assumes a: "calendar_date a" and b: "calendar_date b" and le: "date_le a b"
  shows "toordinal a \<le> toordinal b"
proof (cases "date_le b a")
  case True
  with le have "year_of a = year_of b \<and> month_of a = month_of b \<and> day_of a = day_of b"
    unfolding date_le_def by arith
  then show ?thesis by (simp add: toordinal_def)
next
  case False
  from toordinal_less [OF a b False] show ?thesis by simp
qed

lemma toordinal_inj:
  assumes a: "calendar_date a" and b: "calendar_date b" and eq: "toordinal a = toordinal b"
  shows "a = b"
proof -
  from toordinal_less [OF a b] eq have ba: "date_le b a" by auto
  from toordinal_less [OF b a] eq have ab: "date_le a b" by auto
  from ab ba have "year_of a = year_of b \<and> month_of a = month_of b \<and> day_of a = day_of b"
    unfolding date_le_def by arith
  then show ?thesis by simp
qed

section \<open>The date dimension\<close>

lemma strptime_error: "strptime lib s = Inl e \<Longrightarrow> e = ValueError"
  by (simp add: strptime_def Let_def split: if_splits list.splits option.splits)

lemma strptime_valid: "strptime lib s = Inr dt \<Longrightarrow> valid_date dt"
  by (simp add: strptime_def Let_def split: if_splits list.splits option.splits)

lemma date_range_reversed:
  assumes "valid_date a" "valid_date b" "in_bounds a" "in_bounds b" "\<not> date_le a b"
  shows "date_range a b = Inr []"
proof -
  from assms have "toordinal b < toordinal a"
    by (intro toordinal_less valid_date_calendar)
  with assms show ?thesis by (simp add: date_range_def)
qed

text \<open>
  Claim C6, as the code has it.  The generator fails, with \<open>ValueError\<close>, whenever
  \<open>strptime\<close> does not accept the start date or does not accept the end date.  When it
  accepts both, both are dates a \<open>Timestamp\<close> can hold and the end is before the start, the
  generator does not fail: it returns the table without rows.
\<close>

theorem date_dimension_errors:
  "(strptime lib start_date = Inl e \<longrightarrow>
      generate_date_dimension lib start_date end_date = Inl ValueError) \<and>
   (strptime lib start_date = Inr a \<and> strptime lib end_date = Inl e \<longrightarrow>
      generate_date_dimension lib start_date end_date = Inl ValueError) \<and>
   (strptime lib start_date = Inr a \<and> strptime lib end_date = Inr b \<and>
    in_bounds a \<and> in_bounds b \<and> \<not> date_le a b \<longrightarrow>
      generate_date_dimension lib start_date end_date = Inr [])"
proof (intro conjI impI)
  assume s: "strptime lib start_date = Inl e"
  from strptime_error [OF s] s
  show "generate_date_dimension lib start_date end_date = Inl ValueError"
    by (simp add: generate_date_dimension_def)
next
  assume "strptime lib start_date = Inr a \<and> strptime lib end_date = Inl e"
  then have s: "strptime lib start_date = Inr a" and t: "strptime lib end_date = Inl e"
    by simp_all
  from strptime_error [OF t] s t
  show "generate_date_dimension lib start_date end_date = Inl ValueError"
    by (simp add: generate_date_dimension_def)
next
  assume h: "strptime lib start_date = Inr a \<and> strptime lib end_date = Inr b \<and>
    in_bounds a \<and> in_bounds b \<and> \<not> date_le a b"
  then have s: "strptime lib start_date = Inr a" and t: "strptime lib end_date = Inr b"
    by simp_all
  from h have "date_range a b = Inr []"
    by (intro date_range_reversed strptime_valid [OF s] strptime_valid [OF t]) simp_all
  with s t show "generate_date_dimension lib start_date end_date = Inr []"
    by (simp add: generate_date_dimension_def)
qed

text \<open>The definitions that evaluate the generator on given dates.\<close>

lemmas date_eval = ascii_def is_digit_def digit_value_def digits_value_def ascii_library_def
  strptime_def month_token_def day_token_def digit_in_def valid_date_def days_in_month_def
  is_leap_def in_bounds_def timestamp_min_def timestamp_max_def date_le_def date_range_def
  toordinal_def days_before_year_def days_before_month_def generate_date_dimension_def Let_def

text \<open>
  A month that does not exist, a day that does not exist, and an end before the start.
\<close>

theorem date_dimension_errors_witness:
  "strptime ascii_library (ascii ''2022-13-01'') = Inl ValueError \<and>
   generate_date_dimension ascii_library (ascii ''2022-13-01'') (ascii ''2022-12-31'') = Inl ValueError \<and>
   strptime ascii_library (ascii ''2022-01-01'') = Inr \<lparr>year_of = 2022, month_of = 1, day_of = 1\<rparr> \<and>
   strptime ascii_library (ascii ''2022-02-30'') = Inl ValueError \<and>
   generate_date_dimension ascii_library (ascii ''2022-01-01'') (ascii ''2022-02-30'') = Inl ValueError \<and>
   strptime ascii_library (ascii ''2022-01-02'') = Inr \<lparr>year_of = 2022, month_of = 1, day_of = 2\<rparr> \<and>
   \<not> date_le \<lparr>year_of = 2022, month_of = 1, day_of = 2\<rparr> \<lparr>year_of = 2022, month_of = 1, day_of = 1\<rparr> \<and>
   generate_date_dimension ascii_library (ascii ''2022-01-02'') (ascii ''2022-01-01'') = Inr []"
proof -
  define a :: date where "a = \<lparr>year_of = 2022, month_of = 1, day_of = 1\<rparr>"
  define b :: date where "b = \<lparr>year_of = 2022, month_of = 1, day_of = 2\<rparr>"
  have bad_month: "strptime ascii_library (ascii ''2022-13-01'') = Inl ValueError"
    by (simp add: date_eval)
  have bad_day: "strptime ascii_library (ascii ''2022-02-30'') = Inl ValueError"
    by (simp add: date_eval)
  have first: "strptime ascii_library (ascii ''2022-01-01'') = Inr a"
    by (simp add: a_def date_eval)
  have second: "strptime ascii_library (ascii ''2022-01-02'') = Inr b"
    by (simp add: b_def date_eval)
  have order: "in_bounds b \<and> in_bounds a \<and> \<not> date_le b a"
    by (simp add: a_def b_def in_bounds_def timestamp_min_def timestamp_max_def date_le_def)
  note errors = date_dimension_errors
    [where lib = ascii_library and e = ValueError]
  from errors [of "ascii ''2022-13-01''" "ascii ''2022-12-31''"] bad_month
  have 1: "generate_date_dimension ascii_library (ascii ''2022-13-01'') (ascii ''2022-12-31'') = Inl ValueError"
    by simp
  from errors [of "ascii ''2022-01-01''" "ascii ''2022-02-30''" a] first bad_day
  have 2: "generate_date_dimension ascii_library (ascii ''2022-01-01'') (ascii ''2022-02-30'') = Inl ValueError"
    by simp
  from errors [of "ascii ''2022-01-02''" "ascii ''2022-01-01''" b a] first second order
  have 3: "generate_date_dimension ascii_library (ascii ''2022-01-02'') (ascii ''2022-01-01'') = Inr []"
    by simp
  from order have o: "\<not> date_le b a" by simp
  from bad_month 1 first bad_day 2 second o 3 show ?thesis
    unfolding a_def b_def by (intro conjI)
qed

text \<open>
  The claim as the specification words it fails: an end before the start gives no error.
\<close>

theorem date_dimension_reversed_counterexample:
  "generate_date_dimension ascii_library (ascii ''2022-01-02'') (ascii ''2022-01-01'') = Inr []"
  by (simp add: date_eval)

lemma foldl_zero_padded:
  "foldl (\<lambda>a c. 10 * a + (int (of_char c) - 48)) a (zero_padded w n)
     = a * 10 ^ w + int (n mod 10 ^ w)"
proof (induction w arbitrary: n)
  case 0
  show ?case by simp
next
  case (Suc w)
  have c: "int (of_char (char_of (48 + n mod 10) :: char)) = 48 + int (n mod 10)"
    by simp
  have "n mod (10 * 10 ^ w) = 10 * (n div 10 mod 10 ^ w) + n mod 10"
    by (rule mod_mult2_eq)
  then have m: "int (n mod 10 ^ Suc w) = 10 * int (n div 10 mod 10 ^ w) + int (n mod 10)"
    by simp
  have "foldl (\<lambda>a c. 10 * a + (int (of_char c) - 48)) a (zero_padded (Suc w) n)
      = 10 * (a * 10 ^ w + int (n div 10 mod 10 ^ w)) + int (n mod 10)"
    by (simp only: zero_padded.simps foldl_append foldl.simps Suc.IH c)
  also have "\<dots> = a * 10 ^ Suc w + int (n mod 10 ^ Suc w)"
    by (simp only: m) (simp add: algebra_simps)
  finally show ?case .
qed

text \<open>The key of a day is the number its digits \<open>YYYYMMDD\<close> spell.\<close>

lemma date_id_of:
  assumes "year_of dt < 10000" "month_of dt < 100" "day_of dt < 100"
  shows "date_id (date_row_of dt)
       = int (year_of dt) * 10000 + int (month_of dt) * 100 + int (day_of dt)"
  using assms by (simp add: date_row_of_def ascii_decimal_def foldl_zero_padded)

lemma year_between:
  assumes s: "calendar_date s" and e: "calendar_date e" and d: "calendar_date dt"
    and lo: "toordinal s \<le> toordinal dt" and hi: "toordinal dt \<le> toordinal e"
  shows "year_of s \<le> year_of dt \<and> year_of dt \<le> year_of e"
proof (intro conjI)
  show "year_of s \<le> year_of dt"
  proof (rule ccontr)
    assume "\<not> year_of s \<le> year_of dt"
    then have "\<not> date_le s dt" by (simp add: date_le_def)
    from toordinal_less [OF d s this] lo show False by simp
  qed
  show "year_of dt \<le> year_of e"
  proof (rule ccontr)
    assume "\<not> year_of dt \<le> year_of e"
    then have "\<not> date_le dt e" by (simp add: date_le_def)
    from toordinal_less [OF e d this] hi show False by simp
  qed
qed

lemma in_bounds_years: "in_bounds dt \<Longrightarrow> 1677 \<le> year_of dt \<and> year_of dt \<le> 2262"
  unfolding in_bounds_def date_le_def timestamp_min_def timestamp_max_def
  by (simp split: if_splits) arith

text \<open>The days from a date to a later one, both within the bounds.\<close>

lemma range_days:
  assumes s: "valid_date s" and e: "valid_date e"
    and bs: "in_bounds s" and be: "in_bounds e" and i: "int i \<le> toordinal e - toordinal s"
  shows "calendar_date (plus_days s i)"
    and "toordinal (plus_days s i) = toordinal s + int i"
    and "1677 \<le> year_of (plus_days s i) \<and> year_of (plus_days s i) \<le> 2262"
    and "date_id (date_row_of (plus_days s i))
       = int (year_of (plus_days s i)) * 10000 + int (month_of (plus_days s i)) * 100 +
         int (day_of (plus_days s i))"
    and "10000000 \<le> date_id (date_row_of (plus_days s i))"
    and "date_id (date_row_of (plus_days s i)) \<le> 99999999"
proof -
  let ?d = "plus_days s i"
  from s have cs: "calendar_date s" by (rule valid_date_calendar)
  from e have ce: "calendar_date e" by (rule valid_date_calendar)
  from cs show c: "calendar_date ?d" by (rule calendar_plus_days)
  from cs show t: "toordinal ?d = toordinal s + int i" by (rule toordinal_plus_days)
  from t i have "toordinal s \<le> toordinal ?d" "toordinal ?d \<le> toordinal e" by simp_all
  from year_between [OF cs ce c this] in_bounds_years [OF bs] in_bounds_years [OF be]
  show y: "1677 \<le> year_of ?d \<and> year_of ?d \<le> 2262" by simp
  from c days_in_month_bounds [of "year_of ?d" "month_of ?d"]
  have md: "1 \<le> month_of ?d" "month_of ?d \<le> 12" "1 \<le> day_of ?d" "day_of ?d \<le> 31"
    by (simp_all add: calendar_date_def)
  from y md show k: "date_id (date_row_of ?d)
       = int (year_of ?d) * 10000 + int (month_of ?d) * 100 + int (day_of ?d)"
    by (intro date_id_of) simp_all
  from y md show "10000000 \<le> date_id (date_row_of ?d)" by (simp only: k) simp
  from y md show "date_id (date_row_of ?d) \<le> 99999999" by (simp only: k) simp
qed

text \<open>
  Claim C7, as the code has it.  For start and end dates that \<open>strptime\<close> accepts, both
  between 1677-09-22 and 2262-04-11 (the dates a \<open>Timestamp\<close> can hold), the start not after
  the end, the generator returns a table of exactly \<open>(end - start).days + 1\<close> rows.  Row \<open>i\<close>
  is the row of the day \<open>i\<close> days after the start, a date of the calendar whose day number
  is that of the start plus \<open>i\<close>; the first row is the start and the last row is the end.
  Every \<open>date_id\<close> is the number \<open>YYYYMMDD\<close> made from the year, month and day of its row,
  has eight digits, and is smaller than the \<open>date_id\<close> of the next row.
\<close>

theorem date_dimension_rows:
  assumes s: "strptime lib start_date = Inr start" and e: "strptime lib end_date = Inr end"
    and bs: "in_bounds start" and be: "in_bounds end" and le: "date_le start end"
  shows "\<exists>rows. generate_date_dimension lib start_date end_date = Inr rows \<and>
      int (length rows) = toordinal end - toordinal start + 1 \<and>
      plus_days start 0 = start \<and> plus_days start (length rows - 1) = end \<and>
      (\<forall>i < length rows.
         rows ! i = date_row_of (plus_days start i) \<and>
         calendar_date (plus_days start i) \<and>
         toordinal (plus_days start i) = toordinal start + int i \<and>
         date_id (rows ! i) = int (year (rows ! i)) * 10000 + int (month (rows ! i)) * 100 +
                              int (day (rows ! i)) \<and>
         10000000 \<le> date_id (rows ! i) \<and> date_id (rows ! i) \<le> 99999999) \<and>
      (\<forall>i. Suc i < length rows \<longrightarrow> date_id (rows ! i) < date_id (rows ! Suc i))"
proof -
  define n where "n = nat (toordinal end - toordinal start + 1)"
  define rows where "rows = map date_row_of (map (plus_days start) [0..<n])"
  note vs = strptime_valid [OF s] and ve = strptime_valid [OF e]
  note cs = valid_date_calendar [OF vs] and ce = valid_date_calendar [OF ve]
  from toordinal_le [OF cs ce le] have n: "int n = toordinal end - toordinal start + 1"
    by (simp add: n_def)
  have len: "length rows = n" by (simp add: rows_def)
  have nth: "\<And>i. i < n \<Longrightarrow> rows ! i = date_row_of (plus_days start i)"
    by (simp add: rows_def)
  have inr: "\<And>i. i < n \<Longrightarrow> int i \<le> toordinal end - toordinal start"
    using n by simp
  note days = range_days [OF vs ve bs be inr]
  from s e bs be have gen: "generate_date_dimension lib start_date end_date = Inr rows"
    by (simp add: generate_date_dimension_def date_range_def rows_def n_def)
  have first: "plus_days start 0 = start" by (rule plus_days_0)
  have last: "plus_days start (n - 1) = end"
  proof (rule toordinal_inj [OF _ ce])
    from cs show "calendar_date (plus_days start (n - 1))" by (rule calendar_plus_days)
    from n toordinal_le [OF cs ce le] have "1 \<le> n" by linarith
    then have "int (n - 1) = int n - 1" by (simp add: of_nat_diff)
    with n have "int (n - 1) = toordinal end - toordinal start" by simp
    with toordinal_plus_days [OF cs, of "n - 1"]
    show "toordinal (plus_days start (n - 1)) = toordinal end" by simp
  qed
  have each: "\<forall>i < length rows.
         rows ! i = date_row_of (plus_days start i) \<and>
         calendar_date (plus_days start i) \<and>
         toordinal (plus_days start i) = toordinal start + int i \<and>
         date_id (rows ! i) = int (year (rows ! i)) * 10000 + int (month (rows ! i)) * 100 +
                              int (day (rows ! i)) \<and>
         10000000 \<le> date_id (rows ! i) \<and> date_id (rows ! i) \<le> 99999999"
  proof (intro allI impI)
    fix i
    assume "i < length rows"
    with len have i: "i < n" by simp
    have fields: "year (date_row_of (plus_days start i)) = year_of (plus_days start i)"
      "month (date_row_of (plus_days start i)) = month_of (plus_days start i)"
      "day (date_row_of (plus_days start i)) = day_of (plus_days start i)"
      by (simp_all add: date_row_of_def)
    from days(4) [OF i] have "date_id (rows ! i) = int (year (rows ! i)) * 10000 +
        int (month (rows ! i)) * 100 + int (day (rows ! i))"
      by (simp only: nth [OF i] fields)
    with nth [OF i] days(1) [OF i] days(2) [OF i] days(5) [OF i] days(6) [OF i]
    show "rows ! i = date_row_of (plus_days start i) \<and>
         calendar_date (plus_days start i) \<and>
         toordinal (plus_days start i) = toordinal start + int i \<and>
         date_id (rows ! i) = int (year (rows ! i)) * 10000 + int (month (rows ! i)) * 100 +
                              int (day (rows ! i)) \<and>
         10000000 \<le> date_id (rows ! i) \<and> date_id (rows ! i) \<le> 99999999"
      by simp
  qed
  have grows: "\<forall>i. Suc i < length rows \<longrightarrow> date_id (rows ! i) < date_id (rows ! Suc i)"
  proof (intro allI impI)
    fix i
    assume "Suc i < length rows"
    with len have i: "i < n" and j: "Suc i < n" by simp_all
    let ?d = "plus_days start i"
    note ki = days(4) [OF i]
    from days(4) [OF j]
    have kj: "date_id (date_row_of (next_day ?d)) = int (year_of (next_day ?d)) * 10000 +
        int (month_of (next_day ?d)) * 100 + int (day_of (next_day ?d))"
      by (simp only: plus_days_Suc)
    from date_key_next_day [OF days(1) [OF i]]
    have "int (year_of ?d * 10000 + month_of ?d * 100 + day_of ?d)
        < int (year_of (next_day ?d) * 10000 + month_of (next_day ?d) * 100 + day_of (next_day ?d))"
      by (simp only: of_nat_less_iff)
    then have "date_id (date_row_of ?d) < date_id (date_row_of (next_day ?d))"
      by (simp only: ki kj)
    then show "date_id (rows ! i) < date_id (rows ! Suc i)"
      by (simp only: nth [OF i] nth [OF j] plus_days_Suc)
  qed
  from gen n first last each grows
  have "generate_date_dimension lib start_date end_date = Inr rows \<and>
      int (length rows) = toordinal end - toordinal start + 1 \<and>
      plus_days start 0 = start \<and> plus_days start (length rows - 1) = end \<and>
      (\<forall>i < length rows.
         rows ! i = date_row_of (plus_days start i) \<and>
         calendar_date (plus_days start i) \<and>
         toordinal (plus_days start i) = toordinal start + int i \<and>
         date_id (rows ! i) = int (year (rows ! i)) * 10000 + int (month (rows ! i)) * 100 +
                              int (day (rows ! i)) \<and>
         10000000 \<le> date_id (rows ! i) \<and> date_id (rows ! i) \<le> 99999999) \<and>
      (\<forall>i. Suc i < length rows \<longrightarrow> date_id (rows ! i) < date_id (rows ! Suc i))"
    by (simp only: len)
  then show ?thesis by (rule exI)
qed

text \<open>The four days from 2022-01-30 to 2022-02-02.\<close>

theorem date_dimension_rows_witness:
  "strptime ascii_library (ascii ''2022-01-30'') = Inr \<lparr>year_of = 2022, month_of = 1, day_of = 30\<rparr> \<and>
   strptime ascii_library (ascii ''2022-02-02'') = Inr \<lparr>year_of = 2022, month_of = 2, day_of = 2\<rparr> \<and>
   in_bounds \<lparr>year_of = 2022, month_of = 1, day_of = 30\<rparr> \<and>
   in_bounds \<lparr>year_of = 2022, month_of = 2, day_of = 2\<rparr> \<and>
   date_le \<lparr>year_of = 2022, month_of = 1, day_of = 30\<rparr> \<lparr>year_of = 2022, month_of = 2, day_of = 2\<rparr> \<and>
   (\<exists>rows. generate_date_dimension ascii_library (ascii ''2022-01-30'') (ascii ''2022-02-02'') = Inr rows \<and>
      length rows = 4 \<and>
      plus_days \<lparr>year_of = 2022, month_of = 1, day_of = 30\<rparr> 3 = \<lparr>year_of = 2022, month_of = 2, day_of = 2\<rparr>)"
proof -
  define a :: date where "a = \<lparr>year_of = 2022, month_of = 1, day_of = 30\<rparr>"
  define b :: date where "b = \<lparr>year_of = 2022, month_of = 2, day_of = 2\<rparr>"
  have s: "strptime ascii_library (ascii ''2022-01-30'') = Inr a"
    by (simp add: a_def date_eval)
  have e: "strptime ascii_library (ascii ''2022-02-02'') = Inr b"
    by (simp add: b_def date_eval)
  have bs: "in_bounds a" and be: "in_bounds b" and le: "date_le a b"
    by (simp_all add: a_def b_def in_bounds_def timestamp_min_def timestamp_max_def date_le_def)
  have d: "toordinal b - toordinal a + 1 = 4"
    by (simp add: a_def b_def toordinal_def days_before_year_def days_before_month_def
          days_in_month_def is_leap_def upt_conv_Cons)
  from date_dimension_rows [OF s e bs be le] obtain rows where
    gen: "generate_date_dimension ascii_library (ascii ''2022-01-30'') (ascii ''2022-02-02'') = Inr rows"
    and len: "int (length rows) = toordinal b - toordinal a + 1"
    and last: "plus_days a (length rows - 1) = b"
    by blast
  from len d have l: "length rows = 4" by simp
  with last have "plus_days a 3 = b" by simp
  with gen l have "\<exists>rows. generate_date_dimension ascii_library (ascii ''2022-01-30'') (ascii ''2022-02-02'') = Inr rows \<and>
      length rows = 4 \<and> plus_days a 3 = b"
    by blast
  with s e bs be le show ?thesis unfolding a_def b_def by (intro conjI)
qed

text \<open>
  The claim as the specification words it fails: 0999-01-01 and 0999-01-02 are dates, the
  first before the second, and the generator raises instead of returning two rows.
\<close>

theorem date_dimension_bounds_counterexample:
  "strptime ascii_library (ascii ''0999-01-01'') = Inr \<lparr>year_of = 999, month_of = 1, day_of = 1\<rparr> \<and>
   strptime ascii_library (ascii ''0999-01-02'') = Inr \<lparr>year_of = 999, month_of = 1, day_of = 2\<rparr> \<and>
   date_le \<lparr>year_of = 999, month_of = 1, day_of = 1\<rparr> \<lparr>year_of = 999, month_of = 1, day_of = 2\<rparr> \<and>
   generate_date_dimension ascii_library (ascii ''0999-01-01'') (ascii ''0999-01-02'')
     = Inl OutOfBoundsDatetime"
  by (simp add: date_eval)

section \<open>The truncate flag\<close>

lemma create_schema_any: "create_schema st = create_schema st'"
  by (simp add: create_schema_def)

lemma delete_after_create:
  "delete_existing_records (create_schema st) =
     Inr (create_schema st,
          [DeletingRows ''sales'', DeletingRows ''product'', DeletingRows ''customer'',
           DeletingRows ''dim_date''])"
  by (simp add: delete_existing_records_def create_schema_def delete_from_def)

lemma and_then_store:
  assumes "map_sum id fst r = map_sum id fst r'"
  shows "map_sum id fst (and_then r f) = map_sum id fst (and_then r' f)"
proof (cases r)
  case (Inl e)
  with assms have "r' = Inl e" by (cases r') auto
  with Inl show ?thesis by (simp add: and_then_def)
next
  case (Inr p)
  obtain s l where p: "p = (s, l)" by (cases p)
  with Inr assms obtain l' where r': "r' = Inr (s, l')" by (cases r') auto
  show ?thesis
    by (cases "f s") (auto simp: and_then_def Inr p r')
qed

text \<open>
  Claim C9.  For all files and every store, the run with \<open>truncate = False\<close> and the run with
  \<open>truncate = True\<close> end alike: both fail with the same error, or both succeed with the same
  store.  The schema is dropped and created again at the start of either run, so the rows
  that \<open>truncate\<close> deletes are those of tables that are already empty.  (Only the log
  differs, by the four messages of the deletions.)
\<close>

theorem truncate_flag_irrelevant:
  "map_sum id fst (load_data_to_db lib False fs st) = map_sum id fst (load_data_to_db lib True fs st)"
proof -
  have start: "map_sum id fst (Inr (create_schema st, []) :: error + ('a store \<times> message list)) =
      map_sum id fst (delete_existing_records (create_schema st))"
    by (simp add: delete_after_create)
  show ?thesis
    unfolding load_data_to_db_def
    by (simp only: if_True if_False) (intro and_then_store start)
qed

end
